theory Spec2Isabelle
  imports Complex_Main "HOL-Library.Sublist" "HOL-Library.Multiset"
begin

section \<open>The analysis engine of the Baltimore 311 explorer (scripts/analyze.py)\<close>

text \<open>
  The engine reads a table of service requests and derives chronic hotspots, the
  history of each hotspot with its re-report flags, neighbourhood summaries, gap
  records and request categories. The theory embeds the functions of
  \<^verbatim>\<open>scripts/analyze.py\<close> as HOL functions over lists of rows.

  Conventions of the embedding.
  \<^item> A pandas timestamp is an \<open>int\<close>, the nanoseconds since the epoch; a missing
    timestamp (\<^verbatim>\<open>NaT\<close>) is \<open>None\<close>. \<^verbatim>\<open>Timedelta.days\<close> is the floor of the
    difference divided by one day.
  \<^item> A cell of a text column is a \<open>string option\<close>; \<open>None\<close> is a missing cell, which
    pandas reads as the float \<^verbatim>\<open>NaN\<close>.
  \<^item> Strings are byte lists. \<^verbatim>\<open>str.lower\<close> is modelled on the ASCII letters; every
    other byte is left as it is.
  \<^item> The frame has the columns that \<^verbatim>\<open>fetch_311.py\<close> writes (request number, type,
    status, both dates, resolution days, cluster id). The neighbourhood column is
    optional, since the engine's behaviour without it is specified.
  \<^item> \<^verbatim>\<open>cluster_locations\<close> hands the coordinates to the DBSCAN of scikit-learn and
    stores its labels; the embedding starts from that result, the \<open>cluster_id\<close> of a
    row, with \<open>-1\<close> for a row in no cluster.
  \<^item> Coordinates, the street and the fields computed from them (centroid, address
    hint, dominant type and neighbourhood, status breakdown) are left out of the hotspot
    record: nothing proved below reads them.
\<close>

subsection \<open>Strings\<close>

definition lower_char :: "char \<Rightarrow> char" where
  "lower_char c =
     (case map_of (zip ''ABCDEFGHIJKLMNOPQRSTUVWXYZ'' ''abcdefghijklmnopqrstuvwxyz'') c of
        None \<Rightarrow> c
      | Some d \<Rightarrow> d)"

definition lower :: "string \<Rightarrow> string" where
  "lower s = map lower_char s"

text \<open>\<open>py_in k t\<close> is Python's \<^verbatim>\<open>k in t\<close> on strings: \<open>k\<close> occurs in \<open>t\<close> as a
  contiguous substring.\<close>

fun py_in :: "'a list \<Rightarrow> 'a list \<Rightarrow> bool" where
  "py_in k [] = (k = [])"
| "py_in k (c # t) = (prefix k (c # t) \<or> py_in k t)"

subsection \<open>Sorting\<close>

text \<open>A stable insertion sort by a comparison. pandas sorts with a quicksort that fixes
  no order among equal keys; the model keeps equal keys in their input order. What is
  proved of the walk of a history holds for every order of the rows, and so for whichever
  order pandas leaves rows of equal keys in.\<close>

fun insort_by :: "('a \<Rightarrow> 'a \<Rightarrow> bool) \<Rightarrow> 'a \<Rightarrow> 'a list \<Rightarrow> 'a list" where
  "insort_by le x [] = [x]"
| "insort_by le x (y # ys) = (if le x y then x # y # ys else y # insort_by le x ys)"

definition sort_by :: "('a \<Rightarrow> 'a \<Rightarrow> bool) \<Rightarrow> 'a list \<Rightarrow> 'a list" where
  "sort_by le xs = foldr (insort_by le) xs []"

subsection \<open>Rows and timestamps\<close>

type_synonym timestamp = int

definition ns_per_day :: int where
  "ns_per_day = 86400000000000"

definition td_days :: "int \<Rightarrow> int" where
  "td_days d = d div ns_per_day"

definition FAILED_FIX_WINDOW_DAYS :: int where
  "FAILED_FIX_WINDOW_DAYS = 120"

definition CHRONIC_MIN_REPORTS :: nat where
  "CHRONIC_MIN_REPORTS = 4"

definition CHRONIC_MIN_DAYS_SPAN :: int where
  "CHRONIC_MIN_DAYS_SPAN = 90"

definition HIGH_CHRONIC_THRESHOLD :: nat where
  "HIGH_CHRONIC_THRESHOLD = 8"

record request =
  servicerequestnum :: "string option"
  srtype :: "string option"
  srstatus :: "string option"
  createddate :: "timestamp option"
  statusdate :: "timestamp option"
  resolution_days :: "int option"
  neighborhood :: "string option"
  cluster_id :: int

datatype error = AttributeError

text \<open>\<^verbatim>\<open>sort_values('createddate')\<close>: ascending, missing timestamps last.\<close>

fun created_le :: "timestamp option \<Rightarrow> timestamp option \<Rightarrow> bool" where
  "created_le (Some a) (Some b) = (a \<le> b)"
| "created_le (Some a) None = True"
| "created_le None (Some b) = False"
| "created_le None None = True"

definition row_le :: "request \<Rightarrow> request \<Rightarrow> bool" where
  "row_le a b = created_le (createddate a) (createddate b)"

definition sort_values_createddate :: "request list \<Rightarrow> request list" where
  "sort_values_createddate g = sort_by row_le g"

subsection \<open>build_report_history\<close>

record history_entry =
  h_date :: "int option"
  h_status :: string
  h_srtype :: "string option"
  h_sr_num :: "string option"
  h_resolution_days :: "int option"
  is_rereport :: bool

text \<open>The test of the source on one row, given the closure tracked so far:
  \<^verbatim>\<open>last_closure_date is not None and pd.notna(created)\<close>, then
  \<^verbatim>\<open>0 < (created - last_closure_date).days <= FAILED_FIX_WINDOW_DAYS\<close>.\<close>

fun rereport_test :: "timestamp option \<Rightarrow> timestamp option \<Rightarrow> bool" where
  "rereport_test (Some l) (Some c) =
     (0 < td_days (c - l) \<and> td_days (c - l) \<le> FAILED_FIX_WINDOW_DAYS)"
| "rereport_test _ _ = False"

text \<open>The entry appended for a row. \<open>h_date\<close> is the day number of the creation
  timestamp, which the source prints as \<^verbatim>\<open>%Y-%m-%d\<close>. A missing request number is the
  float \<^verbatim>\<open>NaN\<close>, which is truthy and prints as \<^verbatim>\<open>nan\<close>.\<close>

definition make_entry :: "request \<Rightarrow> string \<Rightarrow> bool \<Rightarrow> history_entry" where
  "make_entry r status flag =
     \<lparr> h_date = map_option td_days (createddate r),
       h_status = status,
       h_srtype = srtype r,
       h_sr_num = (case servicerequestnum r of
                     None \<Rightarrow> Some ''nan''
                   | Some s \<Rightarrow> if s = [] then None else Some (take 20 s)),
       h_resolution_days = resolution_days r,
       is_rereport = flag \<rparr>"

text \<open>The loop of \<^verbatim>\<open>build_report_history\<close> over the sorted rows, with
  \<^verbatim>\<open>last_closure_date\<close> as the accumulator. A missing status is \<^verbatim>\<open>NaN\<close>;
  \<^verbatim>\<open>NaN or ''\<close> is \<^verbatim>\<open>NaN\<close>, and \<^verbatim>\<open>status.lower()\<close> raises on it.\<close>

fun history_walk :: "timestamp option \<Rightarrow> request list \<Rightarrow> error + history_entry list" where
  "history_walk last_closure_date [] = Inr []"
| "history_walk last_closure_date (r # rs) =
     (case srstatus r of
        None \<Rightarrow> Inl AttributeError
      | Some status \<Rightarrow>
          (let entry = make_entry r status (rereport_test last_closure_date (createddate r));
               last' = (if py_in ''closed'' (lower status) \<and> statusdate r \<noteq> None
                        then statusdate r else last_closure_date)
           in case history_walk last' rs of
                Inl e \<Rightarrow> Inl e
              | Inr h \<Rightarrow> Inr (entry # h)))"

definition build_report_history :: "request list \<Rightarrow> error + history_entry list" where
  "build_report_history g = history_walk None (sort_values_createddate g)"

text \<open>The words of the specification: a closure is a row whose status contains
  \<^verbatim>\<open>closed\<close> in any case and whose status timestamp is present; the tracked closure
  timestamp at a point of the walk is the status timestamp of the last closure before
  it.\<close>

definition is_closure :: "request \<Rightarrow> bool" where
  "is_closure r =
     ((case srstatus r of None \<Rightarrow> False | Some s \<Rightarrow> py_in ''closed'' (lower s))
      \<and> statusdate r \<noteq> None)"

definition spec_last_closure :: "request list \<Rightarrow> timestamp option" where
  "spec_last_closure rs =
     (case filter is_closure (rev rs) of [] \<Rightarrow> None | r # _ \<Rightarrow> statusdate r)"

definition closure_or :: "timestamp option \<Rightarrow> request list \<Rightarrow> timestamp option" where
  "closure_or l rs = (case spec_last_closure rs of None \<Rightarrow> l | Some t \<Rightarrow> Some t)"

subsection \<open>detect_failed_fixes\<close>

text \<open>The mask of the source on the sorted rows:
  \<^verbatim>\<open>(createddate > closure_date) & (createddate <= closure_date + timedelta(days=120))\<close>.
  A comparison with a missing timestamp is false.\<close>

definition in_fix_window :: "timestamp \<Rightarrow> request \<Rightarrow> bool" where
  "in_fix_window closure_date r =
     (case createddate r of
        None \<Rightarrow> False
      | Some c \<Rightarrow> closure_date < c \<and> c \<le> closure_date + FAILED_FIX_WINDOW_DAYS * ns_per_day)"

fun failed_fix_loop :: "request list \<Rightarrow> request list \<Rightarrow> nat \<Rightarrow> nat" where
  "failed_fix_loop sorted_reports [] failed_fixes = failed_fixes"
| "failed_fix_loop sorted_reports (row # rest) failed_fixes =
     (if srstatus row \<noteq> Some ''Closed'' then failed_fix_loop sorted_reports rest failed_fixes
      else case statusdate row of
        None \<Rightarrow> failed_fix_loop sorted_reports rest failed_fixes
      | Some closure_date \<Rightarrow>
          (let subsequent = filter (in_fix_window closure_date) sorted_reports
           in failed_fix_loop sorted_reports rest
                (if subsequent \<noteq> [] then failed_fixes + 1 else failed_fixes)))"

definition detect_failed_fixes :: "request list \<Rightarrow> nat" where
  "detect_failed_fixes g =
     (let sorted_reports = sort_values_createddate g
      in failed_fix_loop sorted_reports sorted_reports 0)"

subsection \<open>identify_chronic_hotspots\<close>

text \<open>A float that may be \<^verbatim>\<open>NaN\<close>. Floats are idealised: the values are exact
  rationals or reals, and \<^verbatim>\<open>np.log\<close> is the real logarithm.\<close>

datatype 'a num = NaN | Num 'a

definition present :: "'a option list \<Rightarrow> 'a list" where
  "present xs = [x. Some x \<leftarrow> xs]"

text \<open>\<^verbatim>\<open>Series.min()\<close> and \<^verbatim>\<open>Series.max()\<close> skip missing timestamps and give
  \<^verbatim>\<open>NaT\<close> when none is left.\<close>

definition col_min :: "timestamp option list \<Rightarrow> timestamp option" where
  "col_min xs = (case present xs of [] \<Rightarrow> None | y # ys \<Rightarrow> Some (fold min ys y))"

definition col_max :: "timestamp option list \<Rightarrow> timestamp option" where
  "col_max xs = (case present xs of [] \<Rightarrow> None | y # ys \<Rightarrow> Some (fold max ys y))"

text \<open>\<^verbatim>\<open>(last_report - first_report).days\<close>; the difference of two \<^verbatim>\<open>NaT\<close> is
  \<^verbatim>\<open>NaT\<close>, whose \<^verbatim>\<open>days\<close> is \<^verbatim>\<open>NaN\<close>.\<close>

fun span_between :: "timestamp option \<Rightarrow> timestamp option \<Rightarrow> int num" where
  "span_between (Some f) (Some l) = Num (td_days (l - f))"
| "span_between _ _ = NaN"

text \<open>\<^verbatim>\<open>span_days < CHRONIC_MIN_DAYS_SPAN\<close>: every comparison with \<^verbatim>\<open>NaN\<close> is
  false.\<close>

fun num_less :: "int num \<Rightarrow> int \<Rightarrow> bool" where
  "num_less NaN b = False"
| "num_less (Num a) b = (a < b)"

text \<open>\<^verbatim>\<open>Series.median()\<close> skips missing values; the median of none is \<^verbatim>\<open>NaN\<close>.\<close>

definition median :: "int list \<Rightarrow> rat num" where
  "median xs =
     (let s = sort xs; n = length s in
      if n = 0 then NaN
      else if odd n then Num (of_int (s ! (n div 2)))
      else Num ((of_int (s ! (n div 2 - 1)) + of_int (s ! (n div 2))) / 2))"

text \<open>Rounding. \<^verbatim>\<open>round(x, nd)\<close> of Python and of numpy acts on a binary float, and
  the two disagree with each other and with exact arithmetic on where a decimal tie goes
  (\<^verbatim>\<open>3 / 40\<close> is a float just below 0.075, which Python rounds to 0.07). The functions
  of the engine therefore take the rounding as a parameter \<open>rnd\<close>, and the statements
  assume of it only \<open>rounds_to nd rnd\<close>: the result has \<open>nd\<close> decimals and is within
  half a unit of the last decimal of the argument (exact for the counts and day numbers
  of a frame, which are far below the 53 bits of a float). \<open>py_round nd\<close>, which sends a tie to the
  even neighbour, is one such rounding; the concrete instances below use it away from
  ties.\<close>

definition rounds_to :: "nat \<Rightarrow> ('a::floor_ceiling \<Rightarrow> 'a) \<Rightarrow> bool" where
  "rounds_to nd rnd = (\<forall>x. rnd x * 10 ^ nd \<in> \<int> \<and> \<bar>rnd x - x\<bar> \<le> 1 / (2 * 10 ^ nd))"

definition round_half_even :: "'a::floor_ceiling \<Rightarrow> int" where
  "round_half_even x =
     (let f = \<lfloor>x\<rfloor>; d = x - of_int f in
      if d < 1 / 2 then f else if 1 / 2 < d then f + 1 else if even f then f else f + 1)"

definition py_round :: "nat \<Rightarrow> 'a::floor_ceiling \<Rightarrow> 'a" where
  "py_round nd x = of_int (round_half_even (x * 10 ^ nd)) / 10 ^ nd"

text \<open>\<^verbatim>\<open>months_span = max(span_days / 30, 1)\<close> and
  \<^verbatim>\<open>round(report_count * (1 + np.log(months_span)), 1)\<close>. Python's \<^verbatim>\<open>max\<close> keeps a
  \<^verbatim>\<open>NaN\<close> first argument, and the logarithm of \<^verbatim>\<open>NaN\<close> is \<^verbatim>\<open>NaN\<close>. \<open>rnd\<close> is
  the rounding to one decimal; the logarithm is the real one.\<close>

definition severity :: "(real \<Rightarrow> real) \<Rightarrow> nat \<Rightarrow> int num \<Rightarrow> real num" where
  "severity rnd n sp =
     (case sp of
        NaN \<Rightarrow> NaN
      | Num d \<Rightarrow> Num (rnd (real n * (1 + ln (max (real_of_int d / 30) 1)))))"

text \<open>The logarithm is not computable: the code equation of \<open>severity\<close> is withdrawn,
  so that evaluating a hotspot leaves its score as a term.\<close>

declare severity_def [code del]

text \<open>\<^verbatim>\<open>float(avg_resolution_days) if avg_resolution_days else None\<close>: \<^verbatim>\<open>None\<close> and
  zero are falsy, \<^verbatim>\<open>NaN\<close> is truthy.\<close>

fun float_if_truthy :: "rat num option \<Rightarrow> rat num option" where
  "float_if_truthy None = None"
| "float_if_truthy (Some NaN) = Some NaN"
| "float_if_truthy (Some (Num x)) = (if x = 0 then None else Some (Num x))"

record hotspot =
  hs_cluster_id :: int
  report_count :: nat
  first_report :: "timestamp option"
  last_report :: "timestamp option"
  span_days :: "int num"
  avg_resolution_days :: "rat num option"
  severity_score :: "real num"
  possible_failed_fixes :: nat
  is_high_priority :: bool
  history :: "history_entry list"

definition closed_rows :: "request list \<Rightarrow> request list" where
  "closed_rows g = filter (\<lambda>r. srstatus r = Some ''Closed'') g"

text \<open>The body of the loop over the clusters: \<open>Inr None\<close> is \<^verbatim>\<open>continue\<close>.\<close>

definition hotspot_of ::
    "(real \<Rightarrow> real) \<Rightarrow> int \<Rightarrow> request list \<Rightarrow> error + hotspot option" where
  "hotspot_of rnd cid g =
     (let n = length g;
          first = col_min (map createddate g);
          last = col_max (map createddate g);
          span = span_between first last
      in if n < CHRONIC_MIN_REPORTS \<or> num_less span CHRONIC_MIN_DAYS_SPAN then Inr None
         else
           (let closed = closed_rows g;
                avg = (if closed \<noteq> [] then Some (median (present (map resolution_days closed)))
                       else None);
                fixes = detect_failed_fixes g
            in case build_report_history g of
                 Inl e \<Rightarrow> Inl e
               | Inr hist \<Rightarrow>
                   Inr (Some \<lparr> hs_cluster_id = cid,
                               report_count = n,
                               first_report = first,
                               last_report = last,
                               span_days = span,
                               avg_resolution_days = float_if_truthy avg,
                               severity_score = severity rnd n span,
                               possible_failed_fixes = fixes,
                               is_high_priority = (HIGH_CHRONIC_THRESHOLD \<le> n \<or> 2 \<le> fixes),
                               history = hist \<rparr>)))"

fun hotspot_loop ::
    "(real \<Rightarrow> real) \<Rightarrow> (int \<times> request list) list \<Rightarrow> error + hotspot list" where
  "hotspot_loop rnd [] = Inr []"
| "hotspot_loop rnd ((cid, g) # rest) =
     (case hotspot_of rnd cid g of
        Inl e \<Rightarrow> Inl e
      | Inr None \<Rightarrow> hotspot_loop rnd rest
      | Inr (Some h) \<Rightarrow>
          (case hotspot_loop rnd rest of Inl e \<Rightarrow> Inl e | Inr hs \<Rightarrow> Inr (h # hs)))"

text \<open>\<^verbatim>\<open>groupby('cluster_id')\<close>: the groups in ascending order of the id, each with
  its rows in the order of the frame.\<close>

definition members :: "request list \<Rightarrow> int \<Rightarrow> request list" where
  "members df cid = filter (\<lambda>r. cluster_id r = cid) df"

definition groupby_cluster_id :: "request list \<Rightarrow> (int \<times> request list) list" where
  "groupby_cluster_id df =
     map (\<lambda>cid. (cid, members df cid)) (sort (remdups (map cluster_id df)))"

text \<open>\<^verbatim>\<open>sort_values('severity_score', ascending=False)\<close>: descending, \<^verbatim>\<open>NaN\<close>
  last.\<close>

fun score_ge :: "real num \<Rightarrow> real num \<Rightarrow> bool" where
  "score_ge (Num a) (Num b) = (b \<le> a)"
| "score_ge (Num a) NaN = True"
| "score_ge NaN (Num b) = False"
| "score_ge NaN NaN = True"

definition hotspot_ge :: "hotspot \<Rightarrow> hotspot \<Rightarrow> bool" where
  "hotspot_ge a b = score_ge (severity_score a) (severity_score b)"

definition clustered :: "request list \<Rightarrow> request list" where
  "clustered df = filter (\<lambda>r. 0 \<le> cluster_id r) df"

definition identify_chronic_hotspots ::
    "(real \<Rightarrow> real) \<Rightarrow> request list \<Rightarrow> error + hotspot list" where
  "identify_chronic_hotspots rnd df =
     (if clustered df = [] then Inr []
      else case hotspot_loop rnd (groupby_cluster_id (clustered df)) of
             Inl e \<Rightarrow> Inl e
           | Inr hs \<Rightarrow> Inr (sort_by hotspot_ge hs))"

subsection \<open>The frame of official records and value_counts\<close>

record frame =
  has_neighborhood :: bool
  rows :: "request list"

text \<open>\<^verbatim>\<open>Series.value_counts().to_dict()\<close>: the distinct present values with their
  counts, most frequent first. Missing cells are not counted.\<close>

definition first_seen :: "'a list \<Rightarrow> 'a list" where
  "first_seen xs = rev (remdups (rev xs))"

definition count_ge :: "('a \<times> nat) \<Rightarrow> ('a \<times> nat) \<Rightarrow> bool" where
  "count_ge a b = (snd b \<le> snd a)"

definition value_counts :: "'a option list \<Rightarrow> ('a \<times> nat) list" where
  "value_counts col =
     (let vs = present col
      in sort_by count_ge (map (\<lambda>k. (k, count_list vs k)) (first_seen vs)))"

subsection \<open>neighborhood_summary\<close>

record neighborhood_stats =
  total_reports :: nat
  type_breakdown :: "(string \<times> nat) list"
  resolution_rate :: "rat option"
  ns_avg_resolution_days :: "rat num option"
  recent_90_days :: nat
  prior_90_days :: nat
  trend_pct :: "rat option"

fun round_num :: "(rat \<Rightarrow> rat) \<Rightarrow> rat num \<Rightarrow> rat num" where
  "round_num rnd NaN = NaN"
| "round_num rnd (Num x) = Num (rnd x)"

text \<open>A comparison of a column with a cutoff is false on a missing timestamp.\<close>

definition created_in :: "timestamp \<Rightarrow> timestamp option \<Rightarrow> request \<Rightarrow> bool" where
  "created_in lo hi r =
     (case createddate r of
        None \<Rightarrow> False
      | Some c \<Rightarrow> lo \<le> c \<and> (case hi of None \<Rightarrow> True | Some h \<Rightarrow> c < h))"

text \<open>The statistics of one group. \<open>now\<close> is the clock (\<^verbatim>\<open>datetime.now()\<close>), read
  once. \<open>np_rnd\<close> is the rounding to one decimal of a numpy float (the rate and the
  median), \<open>py_rnd\<close> that of a Python float (the trend).\<close>

definition summarize ::
    "(rat \<Rightarrow> rat) \<Rightarrow> (rat \<Rightarrow> rat) \<Rightarrow> timestamp \<Rightarrow> request list \<Rightarrow> neighborhood_stats" where
  "summarize np_rnd py_rnd now g =
     (let total = length g;
          closed = closed_rows g;
          recent_cutoff = now - 90 * ns_per_day;
          prior_cutoff = now - 180 * ns_per_day;
          recent = length (filter (created_in recent_cutoff None) g);
          prior = length (filter (created_in prior_cutoff (Some recent_cutoff)) g)
      in \<lparr> total_reports = total,
           type_breakdown = value_counts (map srtype g),
           resolution_rate =
             Some (np_rnd (of_nat (length closed) / of_nat total * 100)),
           ns_avg_resolution_days =
             (if closed \<noteq> []
              then Some (round_num np_rnd (median (present (map resolution_days closed))))
              else None),
           recent_90_days = recent,
           prior_90_days = prior,
           trend_pct =
             (if 0 < prior
              then Some (py_rnd ((of_nat recent - of_nat prior) / of_nat prior * 100))
              else if 0 < recent then Some 100 else None) \<rparr>)"

text \<open>The loop over \<^verbatim>\<open>groupby('neighborhood')\<close>, which leaves missing names out; the
  empty name is skipped, every other name gets its entry in the dictionary.\<close>

definition summary_step ::
    "(rat \<Rightarrow> rat) \<Rightarrow> (rat \<Rightarrow> rat) \<Rightarrow> timestamp \<Rightarrow> request list \<Rightarrow> string
      \<Rightarrow> (string \<rightharpoonup> neighborhood_stats) \<Rightarrow> (string \<rightharpoonup> neighborhood_stats)" where
  "summary_step np_rnd py_rnd now df name summary =
     (if name = [] then summary
      else summary(name \<mapsto>
             summarize np_rnd py_rnd now (filter (\<lambda>r. neighborhood r = Some name) df)))"

definition neighborhood_summary ::
    "(rat \<Rightarrow> rat) \<Rightarrow> (rat \<Rightarrow> rat) \<Rightarrow> timestamp \<Rightarrow> frame
      \<Rightarrow> (string \<rightharpoonup> neighborhood_stats)" where
  "neighborhood_summary np_rnd py_rnd now df =
     (if \<not> has_neighborhood df then Map.empty
      else fold (summary_step np_rnd py_rnd now (rows df))
             (first_seen (present (map neighborhood (rows df)))) Map.empty)"

subsection \<open>gap_analysis\<close>

text \<open>The \<^verbatim>\<open>location_hints\<close> cell of a post: not a string (missing), a string that
  is not JSON, or the JSON array of hint strings that \<^verbatim>\<open>fetch_reddit.py\<close> writes.\<close>

datatype location_hints = NotAString | Malformed | HintArray "string list"

fun hints_of :: "location_hints \<Rightarrow> string list" where
  "hints_of NotAString = []"
| "hints_of Malformed = []"
| "hints_of (HintArray hs) = hs"

text \<open>\<^verbatim>\<open>neighborhood.lower() in hint_lower or hint_lower in neighborhood.lower()\<close>\<close>

definition hint_matches :: "string \<Rightarrow> string \<Rightarrow> bool" where
  "hint_matches name hint =
     (py_in (lower name) (lower hint) \<or> py_in (lower hint) (lower name))"

text \<open>\<^verbatim>\<open>d[k] = d.get(k, 0) + 1\<close> on a dictionary that keeps insertion order.\<close>

fun bump :: "'k \<Rightarrow> ('k \<times> nat) list \<Rightarrow> ('k \<times> nat) list" where
  "bump k [] = [(k, 1)]"
| "bump k ((k', c) # kvs) = (if k = k' then (k', c + 1) # kvs else (k', c) # bump k kvs)"

text \<open>\<^verbatim>\<open>d.get(k, 0)\<close>\<close>

definition get0 :: "('k \<times> nat) list \<Rightarrow> 'k \<Rightarrow> nat" where
  "get0 d k = (case map_of d k of None \<Rightarrow> 0 | Some c \<Rightarrow> c)"

definition scan_name :: "string \<Rightarrow> string \<Rightarrow> (string \<times> nat) list \<Rightarrow> (string \<times> nat) list" where
  "scan_name hint name signals = (if hint_matches name hint then bump name signals else signals)"

definition scan_hint :: "string list \<Rightarrow> string \<Rightarrow> (string \<times> nat) list \<Rightarrow> (string \<times> nat) list" where
  "scan_hint names hint signals = fold (scan_name hint) names signals"

definition scan_post ::
    "string list \<Rightarrow> location_hints \<Rightarrow> (string \<times> nat) list \<Rightarrow> (string \<times> nat) list" where
  "scan_post names cell signals = fold (scan_hint names) (hints_of cell) signals"

definition reddit_neighborhood_signals ::
    "string list \<Rightarrow> location_hints list \<Rightarrow> (string \<times> nat) list" where
  "reddit_neighborhood_signals names posts = fold (scan_post names) posts []"

record gap =
  g_neighborhood :: string
  reddit_signal :: nat
  reports_311 :: nat
  gap_score :: rat

text \<open>\<^verbatim>\<open>np.mean(list(report_counts.values())) if report_counts else 0\<close>\<close>

definition avg_311_reports :: "(string \<times> nat) list \<Rightarrow> rat" where
  "avg_311_reports report_counts =
     (if report_counts = [] then 0
      else of_nat (sum_list (map snd report_counts)) / of_nat (length report_counts))"

text \<open>The record appended for a neighbourhood; \<open>rnd\<close> is the rounding to two
  decimals of \<^verbatim>\<open>round(reddit_count / max(balt_311_count, 1), 2)\<close>.\<close>

definition gap_record :: "(rat \<Rightarrow> rat) \<Rightarrow> string \<Rightarrow> nat \<Rightarrow> nat \<Rightarrow> gap" where
  "gap_record rnd name reddit_count balt_311_count =
     \<lparr> g_neighborhood = name,
       reddit_signal = reddit_count,
       reports_311 = balt_311_count,
       gap_score = rnd (of_nat reddit_count / of_nat (max balt_311_count 1)) \<rparr>"

fun gaps_loop ::
    "(rat \<Rightarrow> rat) \<Rightarrow> (string \<times> nat) list \<Rightarrow> rat \<Rightarrow> (string \<times> nat) list \<Rightarrow> gap list" where
  "gaps_loop rnd report_counts avg [] = []"
| "gaps_loop rnd report_counts avg ((name, reddit_count) # rest) =
     (if reddit_count < 2 then gaps_loop rnd report_counts avg rest
      else
        (let balt_311_count = get0 report_counts name
         in if of_nat balt_311_count < avg * (1 / 2)
            then gap_record rnd name reddit_count balt_311_count
                   # gaps_loop rnd report_counts avg rest
            else gaps_loop rnd report_counts avg rest))"

definition gap_ge :: "gap \<Rightarrow> gap \<Rightarrow> bool" where
  "gap_ge a b = (gap_score b \<le> gap_score a)"

definition report_counts_of :: "frame option \<Rightarrow> (string \<times> nat) list" where
  "report_counts_of df_311 =
     (case df_311 of
        None \<Rightarrow> []
      | Some df \<Rightarrow> if has_neighborhood df then value_counts (map neighborhood (rows df)) else [])"

definition gap_analysis ::
    "(rat \<Rightarrow> rat) \<Rightarrow> frame option \<Rightarrow> location_hints list option \<Rightarrow> gap list" where
  "gap_analysis rnd df_311 df_reddit =
     (case df_reddit of
        None \<Rightarrow> []
      | Some posts \<Rightarrow>
          if posts = [] then []
          else
            (let report_counts = report_counts_of df_311;
                 signals = reddit_neighborhood_signals (map fst report_counts) posts;
                 gaps = gaps_loop rnd report_counts (avg_311_reports report_counts) signals
             in sort_by gap_ge gaps))"

subsection \<open>categorize_type\<close>

definition categorize_type :: "string option \<Rightarrow> string" where
  "categorize_type raw =
     (case raw of
        None \<Rightarrow> ''Other''
      | Some s \<Rightarrow>
          if s = [] then ''Other''
          else
            (let t = lower s in
             if py_in ''pothole'' t then ''Pothole''
             else if py_in ''light'' t \<or> py_in ''streetlight'' t then ''Street Light''
             else if py_in ''alley'' t then ''Alley''
             else if py_in ''sidewalk'' t then ''Sidewalk''
             else if py_in ''water'' t \<or> py_in ''main'' t then ''Water Main''
             else if py_in ''cave'' t \<or> py_in ''sinkhole'' t then ''Cave-In / Sinkhole''
             else if py_in ''storm'' t \<or> py_in ''drain'' t \<or> py_in ''catch'' t
               then ''Storm Drain''
             else if py_in ''curb'' t \<or> py_in ''bridge'' t \<or> py_in ''street'' t
               then ''Street / Curb''
             else ''Other''))"

text \<open>The rule in the words of the specification: an ordered list of keyword sets with
  their categories; the first set with a keyword that occurs in the lower-cased string
  gives the category, and \<^verbatim>\<open>Other\<close> is the default.\<close>

definition spec_category_rules :: "(string list \<times> string) list" where
  "spec_category_rules =
     [([''pothole''], ''Pothole''),
      ([''light'', ''streetlight''], ''Street Light''),
      ([''alley''], ''Alley''),
      ([''sidewalk''], ''Sidewalk''),
      ([''water'', ''main''], ''Water Main''),
      ([''cave'', ''sinkhole''], ''Cave-In / Sinkhole''),
      ([''storm'', ''drain'', ''catch''], ''Storm Drain''),
      ([''curb'', ''bridge'', ''street''], ''Street / Curb'')]"

definition rule_matches :: "string \<Rightarrow> (string list \<times> string) \<Rightarrow> bool" where
  "rule_matches t rule = list_ex (\<lambda>k. py_in k t) (fst rule)"

definition spec_first_match :: "string \<Rightarrow> string" where
  "spec_first_match t =
     (case find (rule_matches t) spec_category_rules of
        None \<Rightarrow> ''Other''
      | Some rule \<Rightarrow> snd rule)"

subsection \<open>Example inputs\<close>

text \<open>Rows for the concrete instances below: a pothole report created on day
  \<open>created\<close>, with its status and the day of its status change; the resolution days
  are the whole days between the two, as \<^verbatim>\<open>fetch_311.py\<close> computes them.\<close>

definition day :: "int \<Rightarrow> timestamp" where
  "day n = n * ns_per_day"

definition example_report :: "int \<Rightarrow> string \<Rightarrow> int option \<Rightarrow> int \<Rightarrow> request" where
  "example_report created status status_day cid =
     \<lparr> servicerequestnum = Some ''SR-1'',
       srtype = Some ''Pothole'',
       srstatus = Some status,
       createddate = Some (day created),
       statusdate = map_option day status_day,
       resolution_days = map_option (\<lambda>d. d - created) status_day,
       neighborhood = Some ''Canton'',
       cluster_id = cid \<rparr>"

text \<open>A cluster given out of order: a closure on day 5; a report of day 20 whose status
  is not a closure and has a status date (day 100); a report 30 days after the closure;
  a report 125 days after the closure (30 days after the other status date); and a
  report without a creation timestamp.\<close>

definition example_walk :: "request list" where
  "example_walk =
     [example_report 130 ''Open'' None 0,
      (example_report 0 ''Open'' None 0) \<lparr> createddate := None \<rparr>,
      example_report 35 ''Open'' None 0,
      example_report 20 ''In Progress'' (Some 100) 0,
      example_report 0 ''Closed (Duplicate)'' (Some 5) 0]"

text \<open>A closure on day 5, a report 12 hours after it and a report 120 days and 23 hours
  after it.\<close>

definition ns_per_hour :: int where
  "ns_per_hour = 3600000000000"

definition example_half_day :: "request list" where
  "example_half_day =
     [example_report 0 ''Closed'' (Some 5) 0,
      (example_report 5 ''Open'' None 0) \<lparr> createddate := Some (day 5 + 12 * ns_per_hour) \<rparr>,
      (example_report 125 ''Open'' None 0) \<lparr> createddate := Some (day 125 + 23 * ns_per_hour) \<rparr>]"

text \<open>The window in the words of the claim: the gap from the closure to the creation is
  greater than zero and at most 120 days.\<close>

definition spec_window :: "timestamp \<Rightarrow> timestamp \<Rightarrow> bool" where
  "spec_window l c = (0 < c - l \<and> c - l \<le> 120 * ns_per_day)"

definition entries_of :: "error + history_entry list \<Rightarrow> history_entry list" where
  "entries_of res = (case res of Inl e \<Rightarrow> [] | Inr h \<Rightarrow> h)"

subsection \<open>Notions of the statements\<close>

text \<open>Names for the statements below: the day span of a cluster as the loop computes
  it, the hotspots of a result, and a closure of the cluster that is followed by a report
  created after it and at most 120 days after it.\<close>

definition cluster_span :: "request list \<Rightarrow> int num" where
  "cluster_span g = span_between (col_min (map createddate g)) (col_max (map createddate g))"

definition hotspots_of :: "error + hotspot list \<Rightarrow> hotspot list" where
  "hotspots_of res = (case res of Inl e \<Rightarrow> [] | Inr hs \<Rightarrow> hs)"




text \<open>Five reports of one cluster over 100 days: one closure, on day 40, and two
  reports after it, 20 and 60 days later.\<close>

definition example_single_closure :: "request list" where
  "example_single_closure =
     [example_report 0 ''Open'' None 7,
      example_report 10 ''Open'' None 7,
      example_report 20 ''Closed'' (Some 40) 7,
      example_report 60 ''Open'' None 7,
      example_report 100 ''Open'' None 7]"


text \<open>Five reports of one cluster over exactly 30 days.\<close>

definition example_thirty_days :: "request list" where
  "example_thirty_days =
     [example_report 0 ''Open'' None 9,
      example_report 7 ''Open'' None 9,
      example_report 14 ''Open'' None 9,
      example_report 21 ''Open'' None 9,
      example_report 30 ''Open'' None 9]"

text \<open>Four reports of one cluster, none with a creation timestamp.\<close>

definition example_undated :: "request list" where
  "example_undated =
     replicate 4
       \<lparr> servicerequestnum = Some ''SR-2'',
         srtype = Some ''Pothole'',
         srstatus = Some ''Open'',
         createddate = None,
         statusdate = None,
         resolution_days = None,
         neighborhood = Some ''Canton'',
         cluster_id = 3 \<rparr>"

text \<open>Four reports over 90 days, the first two closed on the day they were created.\<close>

definition example_same_day :: "request list" where
  "example_same_day =
     [example_report 0 ''Closed'' (Some 0) 5,
      example_report 30 ''Closed'' (Some 30) 5,
      example_report 60 ''Open'' None 5,
      example_report 90 ''Open'' None 5]"

text \<open>Clusters at the thresholds: four reports over 90 days (cluster 1), three reports
  over 90 days (cluster 2), four reports over 89 days (cluster 4), and an unclustered
  row.\<close>

definition example_thresholds :: "request list" where
  "example_thresholds =
     [example_report 0 ''Open'' None 1, example_report 0 ''Open'' None 2,
      example_report 0 ''Open'' None 4, example_report 30 ''Open'' None 1,
      example_report 45 ''Open'' None 2, example_report 30 ''Open'' None 4,
      example_report 60 ''Open'' None 1, example_report 60 ''Open'' None 4,
      example_report 90 ''Open'' None 1, example_report 90 ''Open'' None 2,
      example_report 89 ''Open'' None 4, example_report 500 ''Open'' None (- 1)]"

text \<open>The words of the specification for the gap analysis: the weak-signal mentions
  of a neighbourhood (one per hint of a post that matches it), its official report
  count, the known neighbourhoods and the mean official count over them.\<close>

definition spec_mentions :: "location_hints list \<Rightarrow> string \<Rightarrow> nat" where
  "spec_mentions posts name =
     sum_list (map (\<lambda>p. length (filter (hint_matches name) (hints_of p))) posts)"

definition official_count :: "frame \<Rightarrow> string \<Rightarrow> nat" where
  "official_count df name = length (filter (\<lambda>r. neighborhood r = Some name) (rows df))"

definition known_neighborhoods :: "frame \<Rightarrow> string list" where
  "known_neighborhoods df = first_seen (present (map neighborhood (rows df)))"

definition spec_mean_official :: "frame \<Rightarrow> rat" where
  "spec_mean_official df =
     of_nat (sum_list (map (official_count df) (known_neighborhoods df)))
       / of_nat (length (known_neighborhoods df))"

definition exact_ratio :: "gap \<Rightarrow> rat" where
  "exact_ratio g = of_nat (reddit_signal g) / of_nat (max (reports_311 g) 1)"

text \<open>A frame with two neighbourhoods, 3 rows of Canton and 10 of Fells Point, and two
  posts whose hints mention Canton.\<close>

definition nbhd_row :: "string \<Rightarrow> request" where
  "nbhd_row name = (example_report 0 ''Open'' None (- 1)) \<lparr> neighborhood := Some name \<rparr>"

definition example_frame :: frame where
  "example_frame =
     \<lparr> has_neighborhood = True,
       rows = replicate 3 (nbhd_row ''Canton'') @ replicate 10 (nbhd_row ''Fells Point'') \<rparr>"

definition example_posts :: "location_hints list" where
  "example_posts = [HintArray [''canton''], Malformed, HintArray [''Canton Square'']]"

text \<open>One post with two hints, each matching both Canton and Canton Square.\<close>

definition example_names :: "string list" where
  "example_names = [''Canton'', ''Canton Square'', ''Fells Point'']"

definition example_post :: location_hints where
  "example_post = HintArray [''canton'', ''Canton Sq'']"

section \<open>Properties\<close>

subsection \<open>Substrings and sorting\<close>

lemma py_in_sublist: "py_in k t = sublist k t"
  by (induction t) (auto simp: sublist_Cons_right)

lemma set_insort_by: "set (insort_by le x xs) = insert x (set xs)"
  by (induction xs) auto

lemma mset_insort_by: "mset (insort_by le x xs) = add_mset x (mset xs)"
  by (induction xs) auto

lemma mset_sort_by: "mset (sort_by le xs) = mset xs"
  by (induction xs) (auto simp: sort_by_def mset_insort_by)

lemma set_sort_by: "set (sort_by le xs) = set xs"
  using mset_sort_by [of le xs] by (metis set_mset_mset)

lemma length_sort_by: "length (sort_by le xs) = length xs"
  using mset_sort_by [of le xs] by (metis size_mset)

lemma sorted_insort_by:
  assumes tot: "\<And>a b. le a b \<or> le b a" and tr: "\<And>a b c. le a b \<Longrightarrow> le b c \<Longrightarrow> le a c"
  shows "sorted_wrt le xs \<Longrightarrow> sorted_wrt le (insort_by le x xs)"
proof (induction xs)
  case Nil
  then show ?case by simp
next
  case (Cons y ys)
  show ?case
  proof (cases "le x y")
    case True
    with Cons.prems tr show ?thesis by auto
  next
    case False
    with tot have "le y x" by blast
    with False Cons show ?thesis by (auto simp: set_insort_by)
  qed
qed

lemma sorted_sort_by:
  assumes tot: "\<And>a b. le a b \<or> le b a" and tr: "\<And>a b c. le a b \<Longrightarrow> le b c \<Longrightarrow> le a c"
  shows "sorted_wrt le (sort_by le xs)"
proof (induction xs)
  case Nil
  then show ?case by (simp add: sort_by_def)
next
  case (Cons x xs)
  have "sort_by le (x # xs) = insort_by le x (sort_by le xs)"
    by (simp add: sort_by_def)
  with Cons sorted_insort_by [of le, OF tot tr] show ?case by simp
qed

lemma created_le_total: "created_le a b \<or> created_le b a"
  by (cases a; cases b) auto

lemma created_le_trans: "created_le a b \<Longrightarrow> created_le b c \<Longrightarrow> created_le a c"
  by (cases a; cases b; cases c) auto

lemma sorted_sort_values_createddate:
  "sorted_wrt row_le (sort_values_createddate g)"
  unfolding sort_values_createddate_def
  by (rule sorted_sort_by) (auto simp: row_le_def created_le_total intro: created_le_trans)

subsection \<open>The re-report flags of a history\<close>

lemma is_closure_statusdate: "is_closure r \<Longrightarrow> \<exists>t. statusdate r = Some t"
  by (auto simp: is_closure_def)

lemma closure_or_Cons:
  "closure_or l (r # rs) = closure_or (if is_closure r then statusdate r else l) rs"
proof (cases "filter is_closure (rev rs)")
  case Nil
  then show ?thesis
    using is_closure_statusdate [of r]
    by (auto simp: closure_or_def spec_last_closure_def)
next
  case (Cons x xs)
  then have "x \<in> set (filter is_closure (rev rs))" by simp
  then have "is_closure x" by simp
  with Cons show ?thesis
    using is_closure_statusdate [of x]
    by (auto simp: closure_or_def spec_last_closure_def)
qed

text \<open>The invariant of the walk: the accumulator is the status timestamp of the last
  closure passed, or the initial value when none was passed.\<close>

lemma history_walk_flags:
  "history_walk l rs = Inr h \<Longrightarrow>
   length h = length rs \<and>
   (\<forall>i < length rs. is_rereport (h ! i) =
        rereport_test (closure_or l (take i rs)) (createddate (rs ! i)))"
proof (induction rs arbitrary: l h)
  case Nil
  then show ?case by simp
next
  case (Cons r rs)
  from Cons.prems obtain status where st: "srstatus r = Some status"
    by (cases "srstatus r") auto
  define l' where "l' = (if py_in ''closed'' (lower status) \<and> statusdate r \<noteq> None
                        then statusdate r else l)"
  from Cons.prems st obtain h' where h': "history_walk l' rs = Inr h'"
    and h: "h = make_entry r status (rereport_test l (createddate r)) # h'"
    by (auto simp: l'_def Let_def split: sum.splits)
  have l'_eq: "l' = (if is_closure r then statusdate r else l)"
    by (simp add: l'_def is_closure_def st)
  from Cons.IH [OF h'] have len: "length h' = length rs"
    and flags: "\<And>i. i < length rs \<Longrightarrow>
      is_rereport (h' ! i) = rereport_test (closure_or l' (take i rs)) (createddate (rs ! i))"
    by auto
  have "is_rereport (h ! i) =
        rereport_test (closure_or l (take i (r # rs))) (createddate ((r # rs) ! i))"
    if "i < length (r # rs)" for i
  proof (cases i)
    case 0
    then show ?thesis
      by (simp add: h make_entry_def closure_or_def spec_last_closure_def)
  next
    case (Suc j)
    with that have "j < length rs" by simp
    with flags [of j] Suc show ?thesis
      by (simp add: h closure_or_Cons l'_eq)
  qed
  with len h show ?case by simp
qed

lemma history_walk_total:
  "(\<forall>r \<in> set rs. srstatus r \<noteq> None) \<Longrightarrow> \<exists>h. history_walk l rs = Inr h"
proof (induction rs arbitrary: l)
  case Nil
  then show ?case by simp
next
  case (Cons r rs)
  then obtain status where st: "srstatus r = Some status" by auto
  from Cons obtain h where
    "history_walk (if py_in ''closed'' (lower status) \<and> statusdate r \<noteq> None
                   then statusdate r else l) rs = Inr h"
    by fastforce
  with st show ?case by (simp add: Let_def)
qed

text \<open>The history is built whenever no row of the cluster lacks its status.\<close>

lemma build_report_history_total:
  "(\<forall>r \<in> set g. srstatus r \<noteq> None) \<Longrightarrow> \<exists>h. build_report_history g = Inr h"
  unfolding build_report_history_def sort_values_createddate_def
  by (rule history_walk_total) (simp add: set_sort_by)

lemma rereport_test_iff:
  "rereport_test a b =
     (\<exists>l c. a = Some l \<and> b = Some c \<and> 0 < td_days (c - l) \<and> td_days (c - l) \<le> 120)"
  by (cases a; cases b) (auto simp: FAILED_FIX_WINDOW_DAYS_def)

lemma spec_last_closure_none:
  "(\<forall>r \<in> set rs. \<not> is_closure r) \<Longrightarrow> spec_last_closure rs = None"
  by (simp add: spec_last_closure_def filter_False)

lemma td_days_window:
  "(0 < td_days x \<and> td_days x \<le> 120) = (ns_per_day \<le> x \<and> x < 121 * ns_per_day)"
  unfolding td_days_def ns_per_day_def by linarith

text \<open>\<^verbatim>\<open>build_report_history\<close> walks the rows of the cluster in an ascending order
  of their creation timestamps, the missing ones last.\<close>

lemma build_report_history_walk:
  "build_report_history g = history_walk None (sort_values_createddate g) \<and>
   mset (sort_values_createddate g) = mset g \<and>
   sorted_wrt row_le (sort_values_createddate g)"
  by (simp add: build_report_history_def sort_values_createddate_def mset_sort_by
      sorted_sort_values_createddate [unfolded sort_values_createddate_def])

text \<open>
  C2, as stated, fails: the source compares the whole days of the gap
  (\<^verbatim>\<open>Timedelta.days\<close>), not the gap. In \<open>example_half_day\<close> the report created 12 hours
  after the closure is inside the window of the claim and is not flagged, and the report
  created 120 days and 23 hours after it is outside that window and is flagged.
\<close>

theorem rereport_window_counterexample:
  "map createddate (sort_values_createddate example_half_day)
     = [Some (day 0), Some (day 5 + 12 * ns_per_hour), Some (day 125 + 23 * ns_per_hour)] \<and>
   spec_last_closure (take 1 (sort_values_createddate example_half_day)) = Some (day 5) \<and>
   spec_last_closure (take 2 (sort_values_createddate example_half_day)) = Some (day 5) \<and>
   map is_rereport (entries_of (build_report_history example_half_day)) = [False, False, True] \<and>
   spec_window (day 5) (day 5 + 12 * ns_per_hour) \<and>
   \<not> spec_window (day 5) (day 125 + 23 * ns_per_hour)"
  by code_simp

text \<open>
  C2, amended. Whatever the order \<open>s\<close> in which the rows of a cluster are walked, the
  entry at position \<open>i\<close> of the history is flagged as a re-report exactly when a closure
  (a status containing \<^verbatim>\<open>closed\<close> in any case, with a status timestamp) stands before
  \<open>i\<close> in the walk, the row has a creation timestamp, and the number of whole days from
  the status timestamp of the last such closure to the creation is at least 1 and at most
  120: the gap is at least one day and less than 121 days. A row before every closure
  is not flagged, and a row without a creation timestamp is not flagged.
\<close>

theorem rereport_flags_whole_days:
  assumes "history_walk None s = Inr h"
  shows "length h = length s \<and>
         (\<forall>i < length s. is_rereport (h ! i) =
            (\<exists>l c. spec_last_closure (take i s) = Some l \<and> createddate (s ! i) = Some c \<and>
                   0 < td_days (c - l) \<and> td_days (c - l) \<le> 120)) \<and>
         (\<forall>i < length s. is_rereport (h ! i) =
            (\<exists>l c. spec_last_closure (take i s) = Some l \<and> createddate (s ! i) = Some c \<and>
                   ns_per_day \<le> c - l \<and> c - l < 121 * ns_per_day)) \<and>
         (\<forall>i < length s. (\<forall>j < i. \<not> is_closure (s ! j)) \<longrightarrow> \<not> is_rereport (h ! i)) \<and>
         (\<forall>i < length s. createddate (s ! i) = None \<longrightarrow> \<not> is_rereport (h ! i))"
proof -
  from history_walk_flags [OF assms] have len: "length h = length s"
    and flags: "\<And>i. i < length s \<Longrightarrow>
      is_rereport (h ! i) = rereport_test (closure_or None (take i s)) (createddate (s ! i))"
    by auto
  have none: "closure_or None rs = spec_last_closure rs" for rs
    by (simp add: closure_or_def split: option.splits)
  have iff: "is_rereport (h ! i) =
            (\<exists>l c. spec_last_closure (take i s) = Some l \<and> createddate (s ! i) = Some c \<and>
                   0 < td_days (c - l) \<and> td_days (c - l) \<le> 120)" if "i < length s" for i
    using flags [OF that] by (simp add: none rereport_test_iff)
  have exact: "is_rereport (h ! i) =
            (\<exists>l c. spec_last_closure (take i s) = Some l \<and> createddate (s ! i) = Some c \<and>
                   ns_per_day \<le> c - l \<and> c - l < 121 * ns_per_day)" if "i < length s" for i
    using iff [OF that] by (simp add: td_days_window)
  have before: "\<not> is_rereport (h ! i)"
    if "i < length s" and "\<forall>j < i. \<not> is_closure (s ! j)" for i
  proof -
    have "\<forall>r \<in> set (take i s). \<not> is_closure r"
    proof
      fix r assume "r \<in> set (take i s)"
      then obtain j where "j < length (take i s)" and "take i s ! j = r"
        by (auto simp: in_set_conv_nth)
      with that show "\<not> is_closure r" by auto
    qed
    then have "spec_last_closure (take i s) = None" by (rule spec_last_closure_none)
    with iff [OF that(1)] show ?thesis by simp
  qed
  have missing: "\<not> is_rereport (h ! i)"
    if "i < length s" and "createddate (s ! i) = None" for i
    using iff [OF that(1)] that(2) by simp
  from len iff exact before missing show ?thesis by blast
qed

lemma example_walk_flags:
  "map is_rereport (entries_of (build_report_history example_walk))
     = [False, True, True, False, False] \<and>
   map createddate (sort_values_createddate example_walk)
     = [Some (day 0), Some (day 20), Some (day 35), Some (day 130), None] \<and>
   map is_closure (sort_values_createddate example_walk) = [True, False, False, False, False] \<and>
   map statusdate (sort_values_createddate example_walk)
     = [Some (day 5), Some (day 100), None, None, None]"
  by code_simp

lemma example_walk_status: "\<forall>r \<in> set example_walk. srstatus r \<noteq> None"
  by (simp add: example_walk_def example_report_def)

theorem rereport_flags_whole_days_witness:
  "\<exists>h. history_walk None (sort_values_createddate example_walk) = Inr h \<and>
       length h = 5 \<and>
       map is_rereport h = [False, True, True, False, False] \<and>
       is_rereport (h ! 2) =
         (\<exists>l c. spec_last_closure (take 2 (sort_values_createddate example_walk)) = Some l \<and>
                createddate (sort_values_createddate example_walk ! 2) = Some c \<and>
                ns_per_day \<le> c - l \<and> c - l < 121 * ns_per_day)"
proof -
  from build_report_history_total [OF example_walk_status]
  obtain h where h: "build_report_history example_walk = Inr h" ..
  then have walk: "history_walk None (sort_values_createddate example_walk) = Inr h"
    by (simp add: build_report_history_def)
  have five: "length (sort_values_createddate example_walk) = 5"
    by (simp add: sort_values_createddate_def length_sort_by example_walk_def)
  note t = rereport_flags_whole_days [OF walk]
  from t five have a: "length h = 5" by simp
  from t have "\<forall>i < length (sort_values_createddate example_walk). is_rereport (h ! i) =
         (\<exists>l c. spec_last_closure (take i (sort_values_createddate example_walk)) = Some l \<and>
                createddate (sort_values_createddate example_walk ! i) = Some c \<and>
                ns_per_day \<le> c - l \<and> c - l < 121 * ns_per_day)"
    by (elim conjE)
  then have "2 < length (sort_values_createddate example_walk) \<longrightarrow> is_rereport (h ! 2) =
         (\<exists>l c. spec_last_closure (take 2 (sort_values_createddate example_walk)) = Some l \<and>
                createddate (sort_values_createddate example_walk ! 2) = Some c \<and>
                ns_per_day \<le> c - l \<and> c - l < 121 * ns_per_day)"
    by (rule spec)
  with five have b: "is_rereport (h ! 2) =
         (\<exists>l c. spec_last_closure (take 2 (sort_values_createddate example_walk)) = Some l \<and>
                createddate (sort_values_createddate example_walk ! 2) = Some c \<and>
                ns_per_day \<le> c - l \<and> c - l < 121 * ns_per_day)"
    by (simp del: ex_simps)
  from h have c: "map is_rereport h = [False, True, True, False, False]"
    using example_walk_flags by (simp add: entries_of_def)
  show ?thesis
  proof (intro exI conjI)
    show "history_walk None (sort_values_createddate example_walk) = Inr h" by (rule walk)
    show "length h = 5" by (rule a)
    show "map is_rereport h = [False, True, True, False, False]" by (rule c)
    show "is_rereport (h ! 2) =
         (\<exists>l c. spec_last_closure (take 2 (sort_values_createddate example_walk)) = Some l \<and>
                createddate (sort_values_createddate example_walk ! 2) = Some c \<and>
                ns_per_day \<le> c - l \<and> c - l < 121 * ns_per_day)" by (rule b)
  qed
qed

text \<open>The gap is counted in whole days: half a day after a closure is no re-report, and
  120 days and a half still is one.\<close>

lemma rereport_test_whole_days:
  "\<not> rereport_test (Some (day 5)) (Some (day 5 + ns_per_day div 2)) \<and>
   rereport_test (Some (day 5)) (Some (day 125 + ns_per_day div 2)) \<and>
   \<not> rereport_test (Some (day 5)) (Some (day 126))"
  by code_simp

subsection \<open>Request categories\<close>

lemma categorize_type_first_match:
  "categorize_type (Some s) = spec_first_match (lower s)"
  by (simp add: categorize_type_def spec_first_match_def spec_category_rules_def
      rule_matches_def lower_def Let_def)

text \<open>
  C8. \<^verbatim>\<open>categorize_type\<close> gives every request type one category: the category of the
  first rule, in the order pothole, street light, alley, sidewalk, water main, cave-in or
  sinkhole, storm drain, street or curb, that has a keyword occurring in the lower-cased
  string, and \<^verbatim>\<open>Other\<close> when no rule has one (or the type is missing). The result
  depends on the string only up to the case of its letters.
\<close>

theorem categorize_type_priority:
  "categorize_type None = ''Other'' \<and>
   categorize_type (Some s) = spec_first_match (lower s) \<and>
   (\<forall>i < length spec_category_rules.
      rule_matches (lower s) (spec_category_rules ! i) \<and>
      (\<forall>j < i. \<not> rule_matches (lower s) (spec_category_rules ! j))
      \<longrightarrow> categorize_type (Some s) = snd (spec_category_rules ! i)) \<and>
   ((\<forall>i < length spec_category_rules. \<not> rule_matches (lower s) (spec_category_rules ! i))
      \<longrightarrow> categorize_type (Some s) = ''Other'') \<and>
   (lower s = lower s' \<longrightarrow> categorize_type (Some s) = categorize_type (Some s')) \<and>
   categorize_type (Some s) \<in> set (map snd spec_category_rules) \<union> {''Other''}"
proof -
  have none: "categorize_type None = ''Other''"
    by (simp add: categorize_type_def)
  have eq: "categorize_type (Some t) = spec_first_match (lower t)" for t
    by (rule categorize_type_first_match)
  have first: "categorize_type (Some s) = snd (spec_category_rules ! i)"
    if "i < length spec_category_rules"
      and "rule_matches (lower s) (spec_category_rules ! i)"
      and "\<forall>j < i. \<not> rule_matches (lower s) (spec_category_rules ! j)" for i
  proof -
    from that have "find (rule_matches (lower s)) spec_category_rules
        = Some (spec_category_rules ! i)"
      unfolding find_Some_iff by blast
    then show ?thesis by (simp add: eq spec_first_match_def)
  qed
  have other: "categorize_type (Some s) = ''Other''"
    if "\<forall>i < length spec_category_rules. \<not> rule_matches (lower s) (spec_category_rules ! i)"
  proof -
    from that have "find (rule_matches (lower s)) spec_category_rules = None"
      unfolding find_None_iff by (auto simp: in_set_conv_nth)
    then show ?thesis by (simp add: eq spec_first_match_def)
  qed
  have insens: "categorize_type (Some s) = categorize_type (Some s')" if "lower s = lower s'"
    using that by (simp add: eq)
  have range: "categorize_type (Some s) \<in> set (map snd spec_category_rules) \<union> {''Other''}"
  proof (cases "find (rule_matches (lower s)) spec_category_rules")
    case None
    then show ?thesis by (simp add: eq spec_first_match_def)
  next
    case (Some rule)
    then have "rule \<in> set spec_category_rules"
      by (auto simp: find_Some_iff)
    with Some show ?thesis by (simp add: eq spec_first_match_def)
  qed
  from none eq first other insens range show ?thesis by blast
qed

text \<open>\<^verbatim>\<open>Street Light Out\<close> has a keyword of the second rule (\<^verbatim>\<open>light\<close>) and one of
  the eighth (\<^verbatim>\<open>street\<close>); the second rule decides.\<close>

theorem categorize_type_priority_witness:
  "categorize_type (Some ''Street Light Out'') = ''Street Light'' \<and>
   rule_matches (lower ''Street Light Out'') (spec_category_rules ! 1) \<and>
   rule_matches (lower ''Street Light Out'') (spec_category_rules ! 7) \<and>
   \<not> rule_matches (lower ''Street Light Out'') (spec_category_rules ! 0)"
proof -
  have m1: "rule_matches (lower ''Street Light Out'') (spec_category_rules ! 1)"
    by code_simp
  have m7: "rule_matches (lower ''Street Light Out'') (spec_category_rules ! 7)"
    by code_simp
  have m0: "\<not> rule_matches (lower ''Street Light Out'') (spec_category_rules ! 0)"
    by code_simp
  have len: "(1::nat) < length spec_category_rules"
    by (simp add: spec_category_rules_def)
  have "\<forall>j < (1::nat). \<not> rule_matches (lower ''Street Light Out'') (spec_category_rules ! j)"
    using m0 by simp
  with categorize_type_priority [of "''Street Light Out''" "''x''"] m1 len
  have "categorize_type (Some ''Street Light Out'') = snd (spec_category_rules ! 1)"
    by blast
  moreover have "snd (spec_category_rules ! 1) = ''Street Light''"
    by (simp add: spec_category_rules_def)
  ultimately show ?thesis using m1 m7 m0 by simp
qed

subsection \<open>Rounding\<close>

text \<open>Rounding stays within half a unit of the last decimal.\<close>

lemma round_half_even_close:
  "\<bar>of_int (round_half_even x) - x\<bar> \<le> (1 / 2 :: 'a :: floor_ceiling)"
proof -
  define d where "d = x - of_int \<lfloor>x\<rfloor>"
  have d: "0 \<le> d" "d < 1"
    unfolding d_def by linarith+
  have x: "x = of_int \<lfloor>x\<rfloor> + d"
    by (simp add: d_def)
  consider "d < 1 / 2" | "1 / 2 < d" | "d = 1 / 2" by fastforce
  then show ?thesis
  proof cases
    case 1
    then have "round_half_even x = \<lfloor>x\<rfloor>"
      by (simp add: round_half_even_def d_def Let_def)
    then have "of_int (round_half_even x) - x = - d"
      by (simp add: d_def)
    with d 1 show ?thesis by (simp add: abs_if)
  next
    case 2
    then have "round_half_even x = \<lfloor>x\<rfloor> + 1"
      by (simp add: round_half_even_def d_def Let_def)
    then have "of_int (round_half_even x) - x = 1 - d"
      by (simp add: d_def)
    with d 2 show ?thesis by (simp add: abs_if)
  next
    case 3
    then have "round_half_even x = \<lfloor>x\<rfloor> \<or> round_half_even x = \<lfloor>x\<rfloor> + 1"
      by (simp add: round_half_even_def d_def Let_def)
    then have "of_int (round_half_even x) - x = - d \<or> of_int (round_half_even x) - x = 1 - d"
      by (auto simp: d_def)
    with 3 show ?thesis by (auto simp: abs_if)
  qed
qed

text \<open>Rounding a tie to the even neighbour is a rounding in the sense of
  \<open>rounds_to\<close>.\<close>

lemma rounds_to_py_round: "rounds_to nd (py_round nd :: 'a::floor_ceiling \<Rightarrow> 'a)"
proof -
  have "py_round nd x * 10 ^ nd \<in> \<int> \<and> \<bar>py_round nd x - x\<bar> \<le> 1 / (2 * 10 ^ nd)" for x :: 'a
  proof -
    define p :: 'a where "p = 10 ^ nd"
    define r where "r = round_half_even (x * p)"
    have p: "0 < p" by (simp add: p_def)
    have v: "py_round nd x = of_int r / p"
      by (simp add: py_round_def r_def p_def)
    have close: "\<bar>of_int r - x * p\<bar> \<le> 1 / 2"
      unfolding r_def by (rule round_half_even_close)
    have "of_int r / p - x = (of_int r - x * p) / p"
      using p by (simp add: field_simps)
    then have "\<bar>of_int r / p - x\<bar> = \<bar>of_int r - x * p\<bar> / p"
      using p by (simp add: abs_divide)
    also have "\<dots> \<le> (1 / 2) / p"
      by (rule divide_right_mono [OF close]) (use p in simp)
    also have "\<dots> = 1 / (2 * p)" by simp
    finally have "\<bar>py_round nd x - x\<bar> \<le> 1 / (2 * p)"
      by (simp only: v)
    moreover have "py_round nd x * p \<in> \<int>"
      using p by (simp add: v)
    ultimately show ?thesis by (simp add: p_def)
  qed
  then show ?thesis by (simp add: rounds_to_def)
qed

text \<open>Away from a tie the result of a rounding is determined.\<close>

lemma rounds_to_unique:
  assumes "rounds_to nd rnd"
    and "\<bar>x - of_int k / 10 ^ nd\<bar> < 1 / (2 * 10 ^ nd)"
  shows "rnd x = of_int k / 10 ^ nd"
proof -
  define p :: 'a where "p = 10 ^ nd"
  have p: "0 < p" by (simp add: p_def)
  from assms(1) have "rnd x * p \<in> \<int>" and close: "\<bar>rnd x - x\<bar> \<le> 1 / (2 * p)"
    by (simp_all add: rounds_to_def p_def)
  then obtain j :: int where j: "rnd x * p = of_int j" by (auto elim: Ints_cases)
  then have v: "rnd x = of_int j / p" using p by (simp add: field_simps)
  from assms(2) have near: "\<bar>x - of_int k / p\<bar> < 1 / (2 * p)" by (simp add: p_def)
  have "\<bar>of_int j / p - of_int k / p\<bar> \<le> \<bar>of_int j / p - x\<bar> + \<bar>x - of_int k / p\<bar>"
    by linarith
  also have "\<dots> < 1 / (2 * p) + 1 / (2 * p)"
    using close near unfolding v by linarith
  also have "\<dots> = 1 / p" by simp
  finally have "\<bar>of_int j / p - of_int k / p\<bar> * p < 1 / p * p"
    using p by (simp only: mult_strict_right_mono)
  moreover have "\<bar>of_int j / p - of_int k / p\<bar> * p = \<bar>(of_int (j - k) :: 'a)\<bar>"
    using p by (simp add: abs_mult [symmetric] diff_divide_distrib [symmetric] del: abs_mult)
  ultimately have "\<bar>(of_int (j - k) :: 'a)\<bar> < 1" using p by simp
  then have "\<bar>j - k\<bar> < 1"
    by (metis of_int_abs of_int_less_1_iff)
  then have "j = k" by simp
  with v show ?thesis by (simp add: p_def)
qed

text \<open>A rounding leaves a value that has \<open>nd\<close> decimals as it is.\<close>

lemma rounds_to_fixes:
  assumes "rounds_to nd rnd" and "x * 10 ^ nd \<in> \<int>"
  shows "rnd x = x"
proof -
  define p :: 'a where "p = 10 ^ nd"
  have p: "0 < p" by (simp add: p_def)
  from assms(1) have "rnd x * p \<in> \<int>" and close: "\<bar>rnd x - x\<bar> \<le> 1 / (2 * p)"
    by (simp_all add: rounds_to_def p_def)
  then obtain k :: int where k: "rnd x * p = of_int k" by (auto elim: Ints_cases)
  from assms(2) obtain m :: int where m: "x * p = of_int m"
    by (auto simp: p_def elim: Ints_cases)
  have "\<bar>rnd x * p - x * p\<bar> = \<bar>rnd x - x\<bar> * p"
    using p by (simp add: abs_mult left_diff_distrib [symmetric])
  also have "\<dots> \<le> 1 / (2 * p) * p"
    by (rule mult_right_mono [OF close]) (use p in simp)
  also have "\<dots> = 1 / 2" using p by simp
  finally have "\<bar>(of_int (k - m) :: 'a)\<bar> \<le> 1 / 2"
    by (simp add: k m)
  then have "\<bar>(of_int (k - m) :: 'a)\<bar> < 1" by linarith
  then have "\<bar>k - m\<bar> < 1"
    by (metis of_int_abs of_int_less_1_iff)
  then have "k = m" by simp
  with k m have "rnd x * p = x * p" by simp
  with p show ?thesis by simp
qed

subsection \<open>The hotspots of a frame\<close>

lemma hotspot_of_cases:
  "hotspot_of rnd cid g = Inr None \<longleftrightarrow>
     (length g < CHRONIC_MIN_REPORTS \<or> num_less (cluster_span g) CHRONIC_MIN_DAYS_SPAN)"
  by (auto simp: hotspot_of_def cluster_span_def Let_def split: sum.splits)

lemma hotspot_of_Some:
  assumes "hotspot_of rnd cid g = Inr (Some h)"
  shows "CHRONIC_MIN_REPORTS \<le> length g"
    and "\<not> num_less (cluster_span g) CHRONIC_MIN_DAYS_SPAN"
    and "hs_cluster_id h = cid"
    and "report_count h = length g"
    and "span_days h = cluster_span g"
    and "severity_score h = severity rnd (length g) (cluster_span g)"
    and "possible_failed_fixes h = detect_failed_fixes g"
    and "is_high_priority h = (HIGH_CHRONIC_THRESHOLD \<le> length g \<or> 2 \<le> detect_failed_fixes g)"
    and "build_report_history g = Inr (history h)"
    and "avg_resolution_days h =
           float_if_truthy (if closed_rows g \<noteq> []
                            then Some (median (present (map resolution_days (closed_rows g))))
                            else None)"
  using assms
  by (auto simp: hotspot_of_def cluster_span_def Let_def split: sum.splits if_splits)

lemma hotspot_of_Inl:
  "hotspot_of rnd cid g = Inl e \<Longrightarrow> build_report_history g = Inl e"
  by (auto simp: hotspot_of_def Let_def split: sum.splits if_splits)

lemma hotspot_loop_set:
  "hotspot_loop rnd gs = Inr hs \<Longrightarrow>
   set hs = {h. \<exists>cid g. (cid, g) \<in> set gs \<and> hotspot_of rnd cid g = Inr (Some h)}"
proof (induction gs arbitrary: hs)
  case Nil
  then show ?case by simp
next
  case (Cons p gs)
  obtain cid g where p: "p = (cid, g)" by (cases p)
  show ?case
  proof (cases "hotspot_of rnd cid g")
    case (Inl e)
    with Cons.prems p show ?thesis by simp
  next
    case (Inr res)
    show ?thesis
    proof (cases res)
      case None
      with Inr Cons p show ?thesis by auto
    next
      case (Some h)
      with Inr Cons.prems p obtain hs' where hs': "hotspot_loop rnd gs = Inr hs'" and "hs = h # hs'"
        by (auto split: sum.splits)
      with Cons.IH [OF hs'] Inr Some p show ?thesis by auto
    qed
  qed
qed

lemma hotspot_loop_no_error:
  "hotspot_loop rnd gs = Inr hs \<Longrightarrow> (cid, g) \<in> set gs \<Longrightarrow> hotspot_of rnd cid g \<noteq> Inl e"
proof (induction gs arbitrary: hs)
  case Nil
  then show ?case by simp
next
  case (Cons p gs)
  obtain c' g' where p: "p = (c', g')" by (cases p)
  from Cons.prems(1) p obtain o' where o': "hotspot_of rnd c' g' = Inr o'"
    by (cases "hotspot_of rnd c' g'") auto
  from Cons.prems(1) p o' obtain hs' where hs': "hotspot_loop rnd gs = Inr hs'"
    by (cases o'; cases "hotspot_loop rnd gs") auto
  from Cons.prems(2) p consider "(cid, g) = (c', g')" | "(cid, g) \<in> set gs" by auto
  then show ?case
  proof cases
    case 1
    with o' show ?thesis by auto
  next
    case 2
    with Cons.IH [OF hs'] show ?thesis by simp
  qed
qed

lemma hotspot_loop_total:
  "(\<And>cid g e. (cid, g) \<in> set gs \<Longrightarrow> hotspot_of rnd cid g \<noteq> Inl e) \<Longrightarrow>
   \<exists>hs. hotspot_loop rnd gs = Inr hs"
proof (induction gs)
  case Nil
  then show ?case by simp
next
  case (Cons p gs)
  obtain c' g' where p: "p = (c', g')" by (cases p)
  from Cons.prems [of c' g'] p obtain o' where o': "hotspot_of rnd c' g' = Inr o'"
    by (cases "hotspot_of rnd c' g'") auto
  from Cons obtain hs' where "hotspot_loop rnd gs = Inr hs'" by auto
  with p o' show ?case by (cases o') auto
qed

lemma set_groupby_cluster_id:
  "set (groupby_cluster_id df) = {(cid, members df cid) | cid. cid \<in> cluster_id ` set df}"
  by (auto simp: groupby_cluster_id_def)

lemma members_clustered:
  "0 \<le> cid \<Longrightarrow> members (clustered df) cid = members df cid"
  by (induction df) (auto simp: members_def clustered_def)

lemma cluster_ids_clustered:
  "cluster_id ` set (clustered df) = {cid \<in> cluster_id ` set df. 0 \<le> cid}"
  by (auto simp: clustered_def)

text \<open>The hotspots of a frame are those the loop body builds for its clusters.\<close>

lemma identify_chronic_hotspots_set:
  assumes "identify_chronic_hotspots rnd df = Inr hs"
  shows "set hs = {h. \<exists>cid. 0 \<le> cid \<and> cid \<in> cluster_id ` set df \<and>
                      hotspot_of rnd cid (members df cid) = Inr (Some h)}"
proof (cases "clustered df = []")
  case True
  then have "\<And>cid. cid \<in> cluster_id ` set df \<Longrightarrow> \<not> 0 \<le> cid"
    using cluster_ids_clustered [of df] by auto
  with True assms show ?thesis by (auto simp: identify_chronic_hotspots_def)
next
  case False
  with assms obtain hs' where loop: "hotspot_loop rnd (groupby_cluster_id (clustered df)) = Inr hs'"
    and hs: "hs = sort_by hotspot_ge hs'"
    by (auto simp: identify_chronic_hotspots_def split: sum.splits)
  have "set hs = set hs'" by (simp add: hs set_sort_by)
  also have "\<dots> = {h. \<exists>cid g. (cid, g) \<in> set (groupby_cluster_id (clustered df)) \<and>
                       hotspot_of rnd cid g = Inr (Some h)}"
    by (rule hotspot_loop_set [OF loop])
  also have "\<dots> = {h. \<exists>cid. 0 \<le> cid \<and> cid \<in> cluster_id ` set df \<and>
                      hotspot_of rnd cid (members df cid) = Inr (Some h)}"
    unfolding set_groupby_cluster_id cluster_ids_clustered
    by (auto simp: members_clustered)
  finally show ?thesis .
qed

lemma identify_chronic_hotspots_no_error:
  assumes "identify_chronic_hotspots rnd df = Inr hs" and "0 \<le> cid" and "cid \<in> cluster_id ` set df"
  shows "hotspot_of rnd cid (members df cid) \<noteq> Inl e"
proof -
  from assms(2,3) have ne: "clustered df \<noteq> []"
    using cluster_ids_clustered [of df] by auto
  with assms(1) obtain hs' where loop: "hotspot_loop rnd (groupby_cluster_id (clustered df)) = Inr hs'"
    by (auto simp: identify_chronic_hotspots_def split: sum.splits)
  from assms(2,3) have "(cid, members df cid) \<in> set (groupby_cluster_id (clustered df))"
    unfolding set_groupby_cluster_id cluster_ids_clustered
    by (auto simp: members_clustered)
  from hotspot_loop_no_error [OF loop this] show ?thesis .
qed

lemma identify_chronic_hotspots_total:
  assumes "\<forall>r \<in> set df. srstatus r \<noteq> None"
  shows "\<exists>hs. identify_chronic_hotspots rnd df = Inr hs"
proof (cases "clustered df = []")
  case True
  then show ?thesis by (simp add: identify_chronic_hotspots_def)
next
  case False
  have "hotspot_of rnd cid g \<noteq> Inl e"
    if "(cid, g) \<in> set (groupby_cluster_id (clustered df))" for cid g e
  proof
    assume "hotspot_of rnd cid g = Inl e"
    then have bad: "build_report_history g = Inl e" by (rule hotspot_of_Inl)
    from that have "set g \<subseteq> set df"
      by (auto simp: set_groupby_cluster_id members_def clustered_def)
    with assms have "\<forall>r \<in> set g. srstatus r \<noteq> None" by auto
    from build_report_history_total [OF this] bad show False by auto
  qed
  from hotspot_loop_total [of "groupby_cluster_id (clustered df)", OF this]
  obtain hs where "hotspot_loop rnd (groupby_cluster_id (clustered df)) = Inr hs" by blast
  with False show ?thesis by (simp add: identify_chronic_hotspots_def)
qed

subsection \<open>Possible failed fixes\<close>







lemma example_single_closure_status: "\<forall>r \<in> set example_single_closure. srstatus r \<noteq> None"
  by (simp add: example_single_closure_def example_report_def)

lemma example_single_closure_hotspots:
  "map hs_cluster_id (hotspots_of (identify_chronic_hotspots rnd example_single_closure)) = [7] \<and>
   map report_count (hotspots_of (identify_chronic_hotspots rnd example_single_closure)) = [5] \<and>
   map span_days (hotspots_of (identify_chronic_hotspots rnd example_single_closure)) = [Num 100]"
  by code_simp


lemma example_single_closure_hotspot:
  obtains h where "identify_chronic_hotspots rnd example_single_closure = Inr [h]"
    and "hs_cluster_id h = 7" and "report_count h = 5" and "span_days h = Num 100"
proof -
  from identify_chronic_hotspots_total [OF example_single_closure_status]
  obtain hs where hs: "identify_chronic_hotspots rnd example_single_closure = Inr hs" ..
  with example_single_closure_hotspots [of rnd] obtain h where "hs = [h]" and "hs_cluster_id h = 7"
    and "report_count h = 5" and "span_days h = Num 100"
    by (auto simp: hotspots_of_def)
  with hs that show ?thesis by simp
qed


subsection \<open>Chronic qualification, median resolution and severity\<close>

lemma num_less_Num: "cluster_span g = Num d \<Longrightarrow>
  (\<not> num_less (cluster_span g) CHRONIC_MIN_DAYS_SPAN) = (90 \<le> d)"
  by (auto simp: CHRONIC_MIN_DAYS_SPAN_def)

lemma cluster_span_Num:
  "(\<exists>r \<in> set g. createddate r \<noteq> None) \<Longrightarrow> \<exists>d. cluster_span g = Num d"
proof -
  assume "\<exists>r \<in> set g. createddate r \<noteq> None"
  then obtain r t where "r \<in> set g" and "createddate r = Some t" by auto
  then have "t \<in> set (present (map createddate g))"
    by (force simp: present_def)
  then obtain y ys where "present (map createddate g) = y # ys"
    by (cases "present (map createddate g)") auto
  then show ?thesis
    by (simp add: cluster_span_def col_min_def col_max_def)
qed

text \<open>A hotspot is built for a cluster exactly when the guard of the loop lets it pass.\<close>

lemma hotspot_built_iff:
  assumes "identify_chronic_hotspots rnd df = Inr hs"
  shows "(\<exists>h \<in> set hs. hs_cluster_id h = cid) \<longleftrightarrow>
         (0 \<le> cid \<and> cid \<in> cluster_id ` set df \<and> 4 \<le> length (members df cid) \<and>
          \<not> num_less (cluster_span (members df cid)) 90)"
proof
  assume "\<exists>h \<in> set hs. hs_cluster_id h = cid"
  then obtain h where "h \<in> set hs" and c: "hs_cluster_id h = cid" by auto
  with identify_chronic_hotspots_set [OF assms]
  obtain cid' where c': "0 \<le> cid'" "cid' \<in> cluster_id ` set df"
    and h: "hotspot_of rnd cid' (members df cid') = Inr (Some h)" by auto
  note f = hotspot_of_Some [OF h]
  from f(3) c have "cid' = cid" by simp
  with c' f(1,2) show "0 \<le> cid \<and> cid \<in> cluster_id ` set df \<and> 4 \<le> length (members df cid) \<and>
          \<not> num_less (cluster_span (members df cid)) 90"
    by (simp add: CHRONIC_MIN_REPORTS_def CHRONIC_MIN_DAYS_SPAN_def)
next
  assume q: "0 \<le> cid \<and> cid \<in> cluster_id ` set df \<and> 4 \<le> length (members df cid) \<and>
          \<not> num_less (cluster_span (members df cid)) 90"
  then have "hotspot_of rnd cid (members df cid) \<noteq> Inr None"
    by (simp add: hotspot_of_cases CHRONIC_MIN_REPORTS_def CHRONIC_MIN_DAYS_SPAN_def)
  moreover from q have "\<And>e. hotspot_of rnd cid (members df cid) \<noteq> Inl e"
    using identify_chronic_hotspots_no_error [OF assms] by blast
  ultimately obtain h where h: "hotspot_of rnd cid (members df cid) = Inr (Some h)"
    by (cases "hotspot_of rnd cid (members df cid)") auto
  with q identify_chronic_hotspots_set [OF assms] have "h \<in> set hs" by auto
  moreover from hotspot_of_Some(3) [OF h] have "hs_cluster_id h = cid" .
  ultimately show "\<exists>h \<in> set hs. hs_cluster_id h = cid" by blast
qed

text \<open>For a cluster with a dated member the guard is the one the documentation states:
  at least 4 reports over at least 90 days.\<close>

lemma hotspot_built_iff_dated:
  assumes "identify_chronic_hotspots rnd df = Inr hs"
    and "cluster_span (members df cid) = Num d"
  shows "(\<exists>h \<in> set hs. hs_cluster_id h = cid) \<longleftrightarrow>
         (0 \<le> cid \<and> cid \<in> cluster_id ` set df \<and> 4 \<le> length (members df cid) \<and> 90 \<le> d)"
  using hotspot_built_iff [OF assms(1), of cid] assms(2) by auto

lemma example_thresholds_hotspots:
  "map hs_cluster_id (hotspots_of (identify_chronic_hotspots rnd example_thresholds)) = [1] \<and>
   map report_count (hotspots_of (identify_chronic_hotspots rnd example_thresholds)) = [4] \<and>
   map span_days (hotspots_of (identify_chronic_hotspots rnd example_thresholds)) = [Num 90] \<and>
   length (members example_thresholds 2) = 3 \<and>
   cluster_span (members example_thresholds 2) = Num 90 \<and>
   length (members example_thresholds 4) = 4 \<and>
   cluster_span (members example_thresholds 4) = Num 89"
  by code_simp

text \<open>
  C3. The guard of the loop is \<^verbatim>\<open>report_count < 4 or span_days < 90\<close>. For a cluster
  with a dated member it is the documented rule, with both bounds inclusive (the lemmas
  above). For a cluster of at least 4 reports none of which has a creation timestamp the
  span is \<^verbatim>\<open>NaN\<close>, the comparison is false, and a hotspot is built although no span of
  90 days exists: evaluated on \<open>example_undated\<close>.
\<close>

theorem hotspot_built_without_creation_dates:
  "map hs_cluster_id (hotspots_of (identify_chronic_hotspots rnd example_undated)) = [3] \<and>
   map report_count (hotspots_of (identify_chronic_hotspots rnd example_undated)) = [4] \<and>
   map span_days (hotspots_of (identify_chronic_hotspots rnd example_undated)) = [NaN] \<and>
   map first_report (hotspots_of (identify_chronic_hotspots rnd example_undated)) = [None]"
  by code_simp

text \<open>
  C6. The field is written as \<^verbatim>\<open>float(avg_resolution_days) if avg_resolution_days else None\<close>,
  and a median of zero days is falsy: for \<open>example_same_day\<close>, whose two closed members
  were closed on the day they were created, the median is 0 and the hotspot reports no
  median at all.
\<close>

theorem median_zero_reported_as_null:
  "map avg_resolution_days (hotspots_of (identify_chronic_hotspots rnd example_same_day)) = [None] \<and>
   map resolution_days (closed_rows (members example_same_day 5)) = [Some 0, Some 0] \<and>
   median (present (map resolution_days (closed_rows (members example_same_day 5)))) = Num 0"
  by code_simp

text \<open>Whenever the median of the closed members is defined and not zero, the field is
  that median.\<close>

lemma avg_resolution_days_median:
  assumes "identify_chronic_hotspots rnd df = Inr hs" and "h \<in> set hs"
    and "median (present (map resolution_days (closed_rows (members df (hs_cluster_id h))))) = Num m"
    and "closed_rows (members df (hs_cluster_id h)) \<noteq> []"
  shows "avg_resolution_days h = (if m = 0 then None else Some (Num m))"
proof -
  from identify_chronic_hotspots_set [OF assms(1)] assms(2)
  obtain cid where h: "hotspot_of rnd cid (members df cid) = Inr (Some h)" by auto
  note f = hotspot_of_Some [OF h]
  from f(3) have cid: "hs_cluster_id h = cid" .
  from f(10) assms(3,4) show ?thesis
    unfolding cid by simp
qed

lemma score_ge_total: "score_ge a b \<or> score_ge b a"
  by (cases a; cases b) auto

lemma score_ge_trans: "score_ge a b \<Longrightarrow> score_ge b c \<Longrightarrow> score_ge a c"
  by (cases a; cases b; cases c) auto

text \<open>The formula alone gives 5 for five reports over 30 days, under every rounding.\<close>

lemma severity_5_30: "rounds_to 1 rnd \<Longrightarrow> severity rnd 5 (Num 30) = Num 5"
  using rounds_to_fixes [of 1 rnd 5] by (simp add: severity_def)

text \<open>Five reports over 30 days are below the span of a chronic cluster: the loop skips
  them and no hotspot, and so no score, exists for them.\<close>

lemma example_thirty_days_skipped:
  "identify_chronic_hotspots rnd example_thirty_days = Inr [] \<and>
   length (members example_thirty_days 9) = 5 \<and>
   cluster_span (members example_thirty_days 9) = Num 30"
  by code_simp

text \<open>The score of five reports over 100 days: \<open>5 * (1 + ln (10 / 3))\<close> lies between
  10.95 and 11.05, so that every rounding to one decimal gives 11.\<close>

lemma exp_121_lower: "10 / 3 < exp (121 / 100 :: real)"
proof -
  obtain t where "exp (121 / 100 :: real)
      = (\<Sum>m<6. (121 / 100) ^ m / fact m) + exp t / fact 6 * (121 / 100) ^ 6"
    using Maclaurin_exp_le [of "121 / 100" 6] by blast
  moreover have "0 \<le> exp t / fact 6 * (121 / 100 :: real) ^ 6" by simp
  moreover have "(10 / 3 :: real) < (\<Sum>m<6. (121 / 100) ^ m / fact m)"
    by (simp add: lessThan_nat_numeral lessThan_Suc fact_numeral power_divide)
  ultimately show ?thesis by linarith
qed

lemma exp_119_upper: "exp (119 / 100 :: real) < 10 / 3"
proof -
  obtain t where t: "\<bar>t\<bar> \<le> \<bar>119 / 100 :: real\<bar>" and eq: "exp (119 / 100 :: real)
      = (\<Sum>m<8. (119 / 100) ^ m / fact m) + exp t / fact 8 * (119 / 100) ^ 8"
    using Maclaurin_exp_le [of "119 / 100" 8] by blast
  from t have "t \<le> 119 / 100" by linarith
  then have e: "exp t \<le> exp (119 / 100)" by simp
  define E where "E = exp (119 / 100 :: real)"
  have c: "(119 / 100 :: real) ^ 8 / fact 8 \<le> 1 / 1000"
    by (simp add: fact_numeral power_divide)
  have "exp t / fact 8 * (119 / 100) ^ 8 = exp t * ((119 / 100) ^ 8 / fact 8)"
    by simp
  also have "\<dots> \<le> E * (1 / 1000)"
    unfolding E_def by (rule mult_mono [OF e c]) simp_all
  finally have r: "exp t / fact 8 * (119 / 100) ^ 8 \<le> E / 1000" by simp
  have s: "(\<Sum>m<8. (119 / 100 :: real) ^ m / fact m) < 33 / 10"
    by (simp add: lessThan_nat_numeral lessThan_Suc fact_numeral power_divide)
  from eq r s have "E < 33 / 10 + E / 1000" unfolding E_def by linarith
  then show ?thesis unfolding E_def by linarith
qed

lemma ln_10_3_bounds: "119 / 100 < ln (10 / 3 :: real) \<and> ln (10 / 3 :: real) < 121 / 100"
proof -
  have "exp (119 / 100) < exp (ln (10 / 3 :: real))" using exp_119_upper by simp
  moreover have "exp (ln (10 / 3 :: real)) < exp (121 / 100)" using exp_121_lower by simp
  ultimately show ?thesis by (simp only: exp_less_cancel_iff)
qed

lemma example_score: "rounds_to 1 rnd \<Longrightarrow> rnd (5 * (1 + ln (100 / 30 :: real))) = 11"
proof -
  assume r: "rounds_to 1 rnd"
  have l: "ln (100 / 30 :: real) = ln (10 / 3)" by simp
  from ln_10_3_bounds have "119 / 100 < ln (10 / 3 :: real)" and "ln (10 / 3 :: real) < 121 / 100"
    by blast+
  then have "219 / 20 < 5 * (1 + ln (10 / 3 :: real))" and "5 * (1 + ln (10 / 3 :: real)) < 221 / 20"
    by simp_all
  then have "\<bar>5 * (1 + ln (10 / 3 :: real)) - 11\<bar> < 1 / 20"
    by linarith
  then have "\<bar>5 * (1 + ln (100 / 30 :: real)) - of_int 110 / 10 ^ 1\<bar> < 1 / (2 * 10 ^ 1)"
    by (simp only: l) simp
  from rounds_to_unique [OF r this] show ?thesis by simp
qed

text \<open>
  C7, as stated, fails on its instance: a cluster of 5 reports spanning exactly 30 days
  has no severity score, because no hotspot is built for it.
\<close>

theorem severity_instance_counterexample:
  "identify_chronic_hotspots (py_round 1) example_thirty_days = Inr [] \<and>
   map cluster_id example_thirty_days = [9, 9, 9, 9, 9] \<and>
   length (members example_thirty_days 9) = 5 \<and>
   cluster_span (members example_thirty_days 9) = Num 30"
  by code_simp

text \<open>
  C7, amended. Every hotspot with a day span \<open>d\<close> has \<open>d \<ge> 90\<close>, so that
  \<open>max (d / 30) 1\<close> is \<open>d / 30\<close>, and its severity score is
  \<open>report_count * (1 + ln (max (d / 30) 1))\<close> rounded to one decimal: a value with one
  decimal within 0.05 of the product (floats read as reals). A hotspot whose span is
  \<^verbatim>\<open>NaN\<close> has the score \<^verbatim>\<open>NaN\<close>. The hotspots are returned in descending order of
  the score, \<^verbatim>\<open>NaN\<close> scores last. For five reports over exactly 30 days the formula
  gives 5, but such a cluster is skipped and gets no hotspot.
\<close>

theorem severity_score_rounded:
  assumes "rounds_to 1 rnd" and "identify_chronic_hotspots rnd df = Inr hs"
  shows "(\<forall>h \<in> set hs. \<forall>d. span_days h = Num d \<longrightarrow>
            90 \<le> d \<and> max (real_of_int d / 30) 1 = real_of_int d / 30 \<and>
            severity_score h =
              Num (rnd (real (report_count h) * (1 + ln (max (real_of_int d / 30) 1)))) \<and>
            (\<exists>v. severity_score h = Num v \<and> v * 10 \<in> \<int> \<and>
                 \<bar>v - real (report_count h) * (1 + ln (real_of_int d / 30))\<bar> \<le> 1 / 20)) \<and>
         (\<forall>h \<in> set hs. span_days h = NaN \<longrightarrow> severity_score h = NaN) \<and>
         sorted_wrt hotspot_ge hs \<and>
         (\<forall>i j. i < j \<and> j < length hs \<longrightarrow>
            (\<forall>x y. severity_score (hs ! i) = Num x \<and> severity_score (hs ! j) = Num y \<longrightarrow> y \<le> x)) \<and>
         identify_chronic_hotspots rnd example_thirty_days = Inr [] \<and>
         severity rnd 5 (Num 30) = Num 5"
proof -
  have f: "severity_score h = severity rnd (report_count h) (span_days h) \<and>
           \<not> num_less (span_days h) CHRONIC_MIN_DAYS_SPAN" if "h \<in> set hs" for h
  proof -
    from identify_chronic_hotspots_set [OF assms(2)] that
    obtain cid where h: "hotspot_of rnd cid (members df cid) = Inr (Some h)" by auto
    from hotspot_of_Some(2,4,5,6) [OF h] show ?thesis by simp
  qed
  have dated: "90 \<le> d \<and> max (real_of_int d / 30) 1 = real_of_int d / 30 \<and>
            severity_score h =
              Num (rnd (real (report_count h) * (1 + ln (max (real_of_int d / 30) 1)))) \<and>
            (\<exists>v. severity_score h = Num v \<and> v * 10 \<in> \<int> \<and>
                 \<bar>v - real (report_count h) * (1 + ln (real_of_int d / 30))\<bar> \<le> 1 / 20)"
    if "h \<in> set hs" and "span_days h = Num d" for h d
  proof -
    from f [OF that(1)] that(2) have d: "90 \<le> d"
      and s: "severity_score h =
              Num (rnd (real (report_count h) * (1 + ln (max (real_of_int d / 30) 1))))"
      by (simp_all add: CHRONIC_MIN_DAYS_SPAN_def severity_def)
    from d have m: "max (real_of_int d / 30) 1 = real_of_int d / 30" by simp
    define x where "x = real (report_count h) * (1 + ln (real_of_int d / 30))"
    from assms(1) have "rnd x * 10 \<in> \<int>" and "\<bar>rnd x - x\<bar> \<le> 1 / 20"
      by (simp_all add: rounds_to_def)
    with s m have "\<exists>v. severity_score h = Num v \<and> v * 10 \<in> \<int> \<and> \<bar>v - x\<bar> \<le> 1 / 20"
      by (simp add: x_def)
    with d m s show ?thesis unfolding x_def by blast
  qed
  have undated: "severity_score h = NaN" if "h \<in> set hs" and "span_days h = NaN" for h
    using f [OF that(1)] that(2) by (simp add: severity_def)
  have sorted: "sorted_wrt hotspot_ge hs"
  proof (cases "clustered df = []")
    case True
    with assms(2) show ?thesis by (auto simp: identify_chronic_hotspots_def)
  next
    case False
    with assms(2) obtain hs' where "hs = sort_by hotspot_ge hs'"
      by (auto simp: identify_chronic_hotspots_def split: sum.splits)
    moreover have "sorted_wrt hotspot_ge (sort_by hotspot_ge hs')"
      by (rule sorted_sort_by) (auto simp: hotspot_ge_def score_ge_total intro: score_ge_trans)
    ultimately show ?thesis by simp
  qed
  have desc: "y \<le> x" if "i < j" "j < length hs" "severity_score (hs ! i) = Num x"
    "severity_score (hs ! j) = Num y" for i j x y
  proof -
    from sorted that(1,2) have "hotspot_ge (hs ! i) (hs ! j)"
      by (simp add: sorted_wrt_iff_nth_less)
    with that(3,4) show ?thesis by (simp add: hotspot_ge_def)
  qed
  from dated undated sorted desc severity_5_30 [OF assms(1)] example_thirty_days_skipped [of rnd]
  show ?thesis by blast
qed

theorem severity_score_rounded_witness:
  "\<exists>h. identify_chronic_hotspots (py_round 1) example_single_closure = Inr [h] \<and>
       report_count h = 5 \<and> span_days h = Num 100 \<and>
       severity_score h = Num (py_round 1 (5 * (1 + ln (100 / 30)))) \<and>
       severity_score h = Num 11 \<and>
       (\<exists>v. severity_score h = Num v \<and> v * 10 \<in> \<int> \<and> \<bar>v - 5 * (1 + ln (100 / 30))\<bar> \<le> 1 / 20)"
proof -
  obtain h where hs: "identify_chronic_hotspots (py_round 1) example_single_closure = Inr [h]"
    and n: "report_count h = 5" and sp: "span_days h = Num 100"
    by (rule example_single_closure_hotspot)
  have r: "rounds_to 1 (py_round 1 :: real \<Rightarrow> real)" by (rule rounds_to_py_round)
  from severity_score_rounded [OF r hs]
  have "\<forall>h \<in> set [h]. \<forall>d. span_days h = Num d \<longrightarrow>
            90 \<le> d \<and> max (real_of_int d / 30) 1 = real_of_int d / 30 \<and>
            severity_score h =
              Num (py_round 1 (real (report_count h) * (1 + ln (max (real_of_int d / 30) 1)))) \<and>
            (\<exists>v. severity_score h = Num v \<and> v * 10 \<in> \<int> \<and>
                 \<bar>v - real (report_count h) * (1 + ln (real_of_int d / 30))\<bar> \<le> 1 / 20)"
    by (elim conjE)
  then have "\<forall>d. span_days h = Num d \<longrightarrow>
            90 \<le> d \<and> max (real_of_int d / 30) 1 = real_of_int d / 30 \<and>
            severity_score h =
              Num (py_round 1 (real (report_count h) * (1 + ln (max (real_of_int d / 30) 1)))) \<and>
            (\<exists>v. severity_score h = Num v \<and> v * 10 \<in> \<int> \<and>
                 \<bar>v - real (report_count h) * (1 + ln (real_of_int d / 30))\<bar> \<le> 1 / 20)"
    by (rule bspec) simp
  with sp have m: "max (real_of_int 100 / 30) 1 = real_of_int 100 / 30"
    and s: "severity_score h =
              Num (py_round 1 (real (report_count h) * (1 + ln (max (real_of_int 100 / 30) 1))))"
    and v: "\<exists>v. severity_score h = Num v \<and> v * 10 \<in> \<int> \<and>
                 \<bar>v - real (report_count h) * (1 + ln (real_of_int 100 / 30))\<bar> \<le> 1 / 20"
    by blast+
  have five: "real (report_count h) = 5" by (simp add: n)
  have hundred: "real_of_int 100 / 30 = 100 / 30" by simp
  have m': "max (100 / 30 :: real) 1 = 100 / 30" by simp
  from s have s': "severity_score h = Num (py_round 1 (5 * (1 + ln (100 / 30))))"
    unfolding five hundred m' .
  moreover from s' have "severity_score h = Num 11"
    by (simp only: example_score [OF r])
  moreover from v
  have "\<exists>v. severity_score h = Num v \<and> v * 10 \<in> \<int> \<and> \<bar>v - 5 * (1 + ln (100 / 30))\<bar> \<le> 1 / 20"
    unfolding five hundred .
  ultimately show ?thesis using hs n sp by blast
qed

subsection \<open>Counting weak signals and official reports\<close>

lemma get0_bump: "get0 (bump k d) n = (if n = k then get0 d k + 1 else get0 d n)"
  by (induction d) (auto simp: get0_def)

lemma keys_bump: "set (map fst (bump k d)) = insert k (set (map fst d))"
  by (induction k d rule: bump.induct) auto

lemma distinct_bump: "distinct (map fst d) \<Longrightarrow> distinct (map fst (bump k d))"
proof (induction d)
  case Nil
  then show ?case by simp
next
  case (Cons p d)
  obtain k' c where p: "p = (k', c)" by (cases p)
  with Cons keys_bump [of k d] show ?case by auto
qed

lemma scan_hint_get0:
  "get0 (scan_hint names hint d) n =
     get0 d n + (if hint_matches n hint then count_list names n else 0)"
  unfolding scan_hint_def
  by (induction names arbitrary: d) (auto simp: scan_name_def get0_bump)

lemma distinct_scan_hint:
  "distinct (map fst d) \<Longrightarrow> distinct (map fst (scan_hint names hint d))"
  unfolding scan_hint_def
  by (induction names arbitrary: d) (auto simp: scan_name_def distinct_bump)

lemma fold_scan_hint_get0:
  "get0 (fold (scan_hint names) hs d) n =
     get0 d n + count_list names n * length (filter (hint_matches n) hs)"
  by (induction hs arbitrary: d) (auto simp: scan_hint_get0 algebra_simps)

lemma distinct_fold_scan_hint:
  "distinct (map fst d) \<Longrightarrow> distinct (map fst (fold (scan_hint names) hs d))"
  by (induction hs arbitrary: d) (auto simp: distinct_scan_hint)

lemma fold_scan_post_get0:
  "get0 (fold (scan_post names) posts d) n =
     get0 d n + count_list names n * spec_mentions posts n"
  by (induction posts arbitrary: d)
     (auto simp: scan_post_def fold_scan_hint_get0 spec_mentions_def algebra_simps)

lemma distinct_fold_scan_post:
  "distinct (map fst d) \<Longrightarrow> distinct (map fst (fold (scan_post names) posts d))"
  by (induction posts arbitrary: d) (auto simp: scan_post_def distinct_fold_scan_hint)

lemma signals_get0:
  "get0 (reddit_neighborhood_signals names posts) n = count_list names n * spec_mentions posts n"
proof -
  have "get0 ([] :: (string \<times> nat) list) n = 0" by (simp add: get0_def)
  then show ?thesis
    by (simp add: reddit_neighborhood_signals_def fold_scan_post_get0)
qed

lemma distinct_signals: "distinct (map fst (reddit_neighborhood_signals names posts))"
  unfolding reddit_neighborhood_signals_def
  by (rule distinct_fold_scan_post) simp

lemma count_list_distinct:
  "distinct xs \<Longrightarrow> count_list xs x = (if x \<in> set xs then 1 else 0)"
  by (induction xs) auto

lemma distinct_entry:
  assumes "distinct (map fst d)"
  shows "(\<exists>c. (n, c) \<in> set d \<and> 2 \<le> c) \<longleftrightarrow> 2 \<le> get0 d n"
proof -
  have "(\<exists>c. (n, c) \<in> set d \<and> 2 \<le> c) \<longleftrightarrow> (\<exists>c. map_of d n = Some c \<and> 2 \<le> c)"
    using assms by simp
  also have "\<dots> \<longleftrightarrow> 2 \<le> get0 d n"
    by (cases "map_of d n") (simp_all add: get0_def)
  finally show ?thesis .
qed

lemma distinct_get0: "distinct (map fst d) \<Longrightarrow> (n, c) \<in> set d \<Longrightarrow> get0 d n = c"
  by (simp add: get0_def)

text \<open>\<^verbatim>\<open>value_counts\<close> has one entry for each present value, with its number of rows.\<close>

lemma set_first_seen: "set (first_seen xs) = set xs"
  by (simp add: first_seen_def)

lemma distinct_first_seen: "distinct (first_seen xs)"
  by (simp add: first_seen_def)

lemma keys_value_counts:
  "mset (map fst (value_counts col)) = mset (first_seen (present col))"
proof -
  have "mset (map fst (value_counts col))
      = image_mset fst (mset (sort_by count_ge
          (map (\<lambda>k. (k, count_list (present col) k)) (first_seen (present col)))))"
    by (simp add: value_counts_def Let_def)
  also have "\<dots> = mset (first_seen (present col))"
    by (simp add: mset_sort_by multiset.map_comp comp_def)
  finally show ?thesis .
qed

lemma distinct_value_counts: "distinct (map fst (value_counts col))"
  using keys_value_counts [of col] distinct_first_seen [of "present col"]
  by (metis mset_eq_imp_distinct_iff)

lemma set_keys_value_counts: "set (map fst (value_counts col)) = set (present col)"
  using keys_value_counts [of col] set_first_seen [of "present col"]
  by (metis set_mset_mset)

lemma set_value_counts:
  "set (value_counts col) = (\<lambda>k. (k, count_list (present col) k)) ` set (present col)"
  by (simp add: value_counts_def Let_def set_sort_by set_first_seen)

lemma get0_value_counts: "get0 (value_counts col) n = count_list (present col) n"
proof (cases "n \<in> set (present col)")
  case True
  then have "(n, count_list (present col) n) \<in> set (value_counts col)"
    by (simp add: set_value_counts)
  with distinct_value_counts show ?thesis by (rule distinct_get0)
next
  case False
  then have "n \<notin> set (map fst (value_counts col))"
    by (simp only: set_keys_value_counts not_False_eq_True)
  then have "map_of (value_counts col) n = None"
    by (simp add: map_of_eq_None_iff)
  with False show ?thesis by (simp add: get0_def)
qed

lemma count_list_present:
  "count_list (present (map neighborhood rs)) n = length (filter (\<lambda>r. neighborhood r = Some n) rs)"
  by (induction rs) (auto simp: present_def split: option.splits)

lemma report_counts_of_frame:
  "has_neighborhood df \<Longrightarrow> report_counts_of (Some df) = value_counts (map neighborhood (rows df))"
  by (simp add: report_counts_of_def)

lemma official_count_get0:
  "has_neighborhood df \<Longrightarrow> get0 (report_counts_of (Some df)) n = official_count df n"
  by (simp add: report_counts_of_frame get0_value_counts count_list_present official_count_def)

lemma names_known:
  assumes "has_neighborhood df"
  shows "mset (map fst (report_counts_of (Some df))) = mset (known_neighborhoods df)"
  unfolding report_counts_of_frame [OF assms] known_neighborhoods_def
  by (rule keys_value_counts)

lemma set_names_known:
  "has_neighborhood df \<Longrightarrow>
   set (map fst (report_counts_of (Some df))) = set (known_neighborhoods df)"
  using names_known [of df] by (metis set_mset_mset)

lemma distinct_names:
  "distinct (map fst (report_counts_of df_311))"
  by (auto simp: report_counts_of_def distinct_value_counts split: option.splits)

lemma snd_value_counts:
  "p \<in> set (value_counts col) \<Longrightarrow> snd p = count_list (present col) (fst p)"
  by (auto simp: set_value_counts)

lemma map_snd_value_counts:
  "map snd (value_counts col) = map (count_list (present col)) (map fst (value_counts col))"
  by (simp add: snd_value_counts)

lemma sum_counts_known:
  assumes "has_neighborhood df"
  shows "sum_list (map snd (report_counts_of (Some df)))
       = sum_list (map (official_count df) (known_neighborhoods df))"
proof -
  let ?col = "map neighborhood (rows df)"
  have c: "count_list (present ?col) = official_count df"
    by (rule ext) (simp add: count_list_present official_count_def)
  have "sum_list (map snd (value_counts ?col))
      = sum_mset (image_mset (official_count df) (mset (map fst (value_counts ?col))))"
    unfolding map_snd_value_counts c
    by (metis mset_map sum_mset_sum_list)
  also have "\<dots> = sum_mset (image_mset (official_count df) (mset (known_neighborhoods df)))"
    by (simp only: keys_value_counts known_neighborhoods_def)
  also have "\<dots> = sum_list (map (official_count df) (known_neighborhoods df))"
    by (metis mset_map sum_mset_sum_list)
  finally show ?thesis by (simp add: report_counts_of_frame [OF assms])
qed

lemma length_counts_known:
  assumes "has_neighborhood df"
  shows "length (report_counts_of (Some df)) = length (known_neighborhoods df)"
  using names_known [OF assms] by (metis length_map size_mset)

lemma avg_311_reports_mean:
  assumes "has_neighborhood df" and "known_neighborhoods df \<noteq> []"
  shows "avg_311_reports (report_counts_of (Some df)) = spec_mean_official df"
proof -
  from assms(2) length_counts_known [OF assms(1)] have "report_counts_of (Some df) \<noteq> []"
    by auto
  then show ?thesis
    by (simp add: avg_311_reports_def spec_mean_official_def sum_counts_known [OF assms(1)]
        length_counts_known [OF assms(1)])
qed

text \<open>The records of the loop over the signals.\<close>

lemma gaps_loop_set:
  "g \<in> set (gaps_loop rnd rc avg sig) \<longleftrightarrow>
     (\<exists>n c. g = gap_record rnd n c (get0 rc n) \<and> (n, c) \<in> set sig \<and> 2 \<le> c \<and>
            of_nat (get0 rc n) < avg * (1 / 2))"
proof (induction sig)
  case Nil
  then show ?case by simp
next
  case (Cons p sig)
  obtain n c where p: "p = (n, c)" by (cases p)
  let ?keep = "2 \<le> c \<and> of_nat (get0 rc n) < avg * (1 / 2)"
  have step: "set (gaps_loop rnd rc avg (p # sig)) =
      (if ?keep then {gap_record rnd n c (get0 rc n)} else {}) \<union> set (gaps_loop rnd rc avg sig)"
    unfolding p by (auto simp: Let_def)
  show ?case
  proof (cases ?keep)
    case True
    with step Cons.IH p show ?thesis by auto
  next
    case False
    with step Cons.IH p show ?thesis by auto
  qed
qed

subsection \<open>The gap records\<close>

lemma mentions_of_entry:
  assumes "distinct names" and "(n, c) \<in> set (reddit_neighborhood_signals names posts)"
    and "0 < c"
  shows "n \<in> set names \<and> c = spec_mentions posts n"
proof -
  from distinct_get0 [OF distinct_signals assms(2)]
  have c: "c = count_list names n * spec_mentions posts n"
    by (simp add: signals_get0)
  with assms(3) have "count_list names n \<noteq> 0" by auto
  with assms(1) have "n \<in> set names" and "count_list names n = 1"
    by (auto simp: count_list_distinct split: if_splits)
  with c show ?thesis by simp
qed

lemma gap_analysis_set:
  "g \<in> set (gap_analysis rnd df_311 (Some posts)) \<longleftrightarrow>
     (\<exists>n. n \<in> set (map fst (report_counts_of df_311)) \<and>
          g = gap_record rnd n (spec_mentions posts n) (get0 (report_counts_of df_311) n) \<and>
          2 \<le> spec_mentions posts n \<and>
          of_nat (get0 (report_counts_of df_311) n)
            < avg_311_reports (report_counts_of df_311) * (1 / 2))"
proof (cases "posts = []")
  case True
  then show ?thesis by (simp add: gap_analysis_def spec_mentions_def)
next
  case False
  define rc where "rc = report_counts_of df_311"
  define sig where "sig = reddit_neighborhood_signals (map fst rc) posts"
  have dn: "distinct (map fst rc)" unfolding rc_def by (rule distinct_names)
  from False have "set (gap_analysis rnd df_311 (Some posts)) = set (gaps_loop rnd rc (avg_311_reports rc) sig)"
    by (simp add: gap_analysis_def Let_def set_sort_by rc_def sig_def)
  then have "g \<in> set (gap_analysis rnd df_311 (Some posts)) \<longleftrightarrow>
      (\<exists>n c. g = gap_record rnd n c (get0 rc n) \<and> (n, c) \<in> set sig \<and> 2 \<le> c \<and>
            of_nat (get0 rc n) < avg_311_reports rc * (1 / 2))"
    by (simp add: gaps_loop_set)
  also have "\<dots> \<longleftrightarrow> (\<exists>n. n \<in> set (map fst rc) \<and>
          g = gap_record rnd n (spec_mentions posts n) (get0 rc n) \<and> 2 \<le> spec_mentions posts n \<and>
          of_nat (get0 rc n) < avg_311_reports rc * (1 / 2))"
  proof
    assume "\<exists>n c. g = gap_record rnd n c (get0 rc n) \<and> (n, c) \<in> set sig \<and> 2 \<le> c \<and>
            of_nat (get0 rc n) < avg_311_reports rc * (1 / 2)"
    then obtain n c where g: "g = gap_record rnd n c (get0 rc n)" and e: "(n, c) \<in> set sig"
      and c: "2 \<le> c" and lt: "of_nat (get0 rc n) < avg_311_reports rc * (1 / 2)" by blast
    from c have "0 < c" by simp
    from mentions_of_entry [OF dn e [unfolded sig_def] this]
    have "n \<in> set (map fst rc)" and "c = spec_mentions posts n" by simp_all
    with g c lt show "\<exists>n. n \<in> set (map fst rc) \<and>
          g = gap_record rnd n (spec_mentions posts n) (get0 rc n) \<and> 2 \<le> spec_mentions posts n \<and>
          of_nat (get0 rc n) < avg_311_reports rc * (1 / 2)" by blast
  next
    assume "\<exists>n. n \<in> set (map fst rc) \<and>
          g = gap_record rnd n (spec_mentions posts n) (get0 rc n) \<and> 2 \<le> spec_mentions posts n \<and>
          of_nat (get0 rc n) < avg_311_reports rc * (1 / 2)"
    then obtain n where n: "n \<in> set (map fst rc)"
      and g: "g = gap_record rnd n (spec_mentions posts n) (get0 rc n)"
      and m: "2 \<le> spec_mentions posts n"
      and lt: "of_nat (get0 rc n) < avg_311_reports rc * (1 / 2)" by blast
    from n dn have "get0 sig n = spec_mentions posts n"
      by (simp add: sig_def signals_get0 count_list_distinct)
    with m have "2 \<le> get0 sig n" by simp
    then obtain c where "(n, c) \<in> set sig" and "2 \<le> c"
      using distinct_entry [of sig n] distinct_signals [of "map fst rc" posts]
      by (auto simp: sig_def)
    moreover from this \<open>get0 sig n = spec_mentions posts n\<close>
    have "c = spec_mentions posts n"
      using distinct_get0 [of sig n c] distinct_signals [of "map fst rc" posts]
      by (simp add: sig_def)
    ultimately show "\<exists>n c. g = gap_record rnd n c (get0 rc n) \<and> (n, c) \<in> set sig \<and> 2 \<le> c \<and>
            of_nat (get0 rc n) < avg_311_reports rc * (1 / 2)"
      using g lt by blast
  qed
  finally show ?thesis unfolding rc_def .
qed

lemma gap_ge_total: "gap_ge a b \<or> gap_ge b a"
  by (auto simp: gap_ge_def)

lemma gap_ge_trans: "gap_ge a b \<Longrightarrow> gap_ge b c \<Longrightarrow> gap_ge a c"
  by (auto simp: gap_ge_def)

lemma sorted_gap_analysis: "sorted_wrt gap_ge (gap_analysis rnd df_311 df_reddit)"
proof -
  have "sorted_wrt gap_ge (sort_by gap_ge gs)" for gs
    by (rule sorted_sort_by) (auto simp: gap_ge_total intro: gap_ge_trans)
  then show ?thesis
    by (auto simp: gap_analysis_def Let_def split: option.splits)
qed

lemma gaps_loop_distinct:
  "distinct (map fst sig) \<Longrightarrow>
   distinct (map g_neighborhood (gaps_loop rnd rc avg sig)) \<and>
   set (map g_neighborhood (gaps_loop rnd rc avg sig)) \<subseteq> set (map fst sig)"
proof (induction sig)
  case Nil
  then show ?case by simp
next
  case (Cons p sig)
  obtain n c where p: "p = (n, c)" by (cases p)
  from Cons.prems p have "n \<notin> set (map fst sig)" and "distinct (map fst sig)" by auto
  with Cons.IH show ?case
    unfolding p by (auto simp: Let_def gap_record_def)
qed

lemma distinct_gap_analysis:
  "distinct (map g_neighborhood (gap_analysis rnd df_311 df_reddit))"
proof -
  have "distinct (map g_neighborhood (sort_by gap_ge (gaps_loop rnd rc avg
          (reddit_neighborhood_signals names posts))))" for rc avg names posts
  proof -
    let ?gs = "gaps_loop rnd rc avg (reddit_neighborhood_signals names posts)"
    have "distinct (map g_neighborhood ?gs)"
      using gaps_loop_distinct [OF distinct_signals [of names posts]] by blast
    moreover have "mset (map g_neighborhood (sort_by gap_ge ?gs)) = mset (map g_neighborhood ?gs)"
      by (simp add: mset_sort_by)
    ultimately show ?thesis by (metis mset_eq_imp_distinct_iff)
  qed
  then show ?thesis
    by (auto simp: gap_analysis_def Let_def split: option.splits)
qed

text \<open>Without known neighbourhoods (no official frame, or no neighbourhood column) there
  is no gap record.\<close>

lemma gap_analysis_no_neighborhoods:
  assumes "report_counts_of df_311 = []"
  shows "gap_analysis rnd df_311 df_reddit = []"
proof (cases df_reddit)
  case None
  then show ?thesis by (simp add: gap_analysis_def)
next
  case (Some posts)
  have "g \<notin> set (gap_analysis rnd df_311 (Some posts))" for g
    unfolding gap_analysis_set by (simp add: assms)
  with Some show ?thesis
    by (cases "gap_analysis rnd df_311 (Some posts)") auto
qed

text \<open>Two thirds round to 0.67 under every rounding to two decimals; at the tie 3/40 a
  rounding may give 0.07, as Python's does on the float, or 0.08.\<close>

lemma rounds_to_two_thirds:
  assumes "rounds_to 2 rnd"
  shows "rnd (2 / 3 :: rat) = 67 / 100"
proof -
  from assms have "rnd (2 / 3) * 100 \<in> \<int>" and close: "\<bar>rnd (2 / 3) - 2 / 3\<bar> \<le> 1 / 200"
    by (simp_all add: rounds_to_def)
  then obtain k :: int where k: "rnd (2 / 3) * 100 = of_int k" by (auto elim: Ints_cases)
  then have v: "rnd (2 / 3) = of_int k / 100" by simp
  from close have "(of_int 397 :: rat) \<le> of_int (6 * k)" and "of_int (6 * k) \<le> (of_int 403 :: rat)"
    unfolding v by (simp_all, linarith+)
  then have "397 \<le> 6 * k" and "6 * k \<le> 403"
    by (simp_all only: of_int_le_iff)
  then have "k = 67" by presburger
  with v show ?thesis by simp
qed

lemma rounds_to_tie_open:
  assumes "rounds_to 2 rnd"
  shows "rnd (3 / 40 :: rat) = 7 / 100 \<or> rnd (3 / 40) = 8 / 100"
proof -
  from assms have "rnd (3 / 40) * 100 \<in> \<int>" and close: "\<bar>rnd (3 / 40) - 3 / 40\<bar> \<le> 1 / 200"
    by (simp_all add: rounds_to_def)
  then obtain k :: int where k: "rnd (3 / 40) * 100 = of_int k" by (auto elim: Ints_cases)
  then have v: "rnd (3 / 40) = of_int k / 100" by simp
  from close have "(of_int 14 :: rat) \<le> of_int (2 * k)" and "of_int (2 * k) \<le> (of_int 16 :: rat)"
    unfolding v by (simp_all, linarith+)
  then have "14 \<le> 2 * k" and "2 * k \<le> 16"
    by (simp_all only: of_int_le_iff)
  then have "k = 7 \<or> k = 8" by presburger
  with v show ?thesis by auto
qed

text \<open>
  C5, as stated, fails on the gap ratio: the record stores the ratio rounded to two
  decimals. For Canton in \<open>example_frame\<close> (3 official reports, mean 6.5) with two
  mentions the record has the score 0.67, not 2/3.
\<close>

theorem gap_score_counterexample:
  "map g_neighborhood (gap_analysis (py_round 2) (Some example_frame) (Some example_posts))
     = [''Canton''] \<and>
   map reddit_signal (gap_analysis (py_round 2) (Some example_frame) (Some example_posts)) = [2] \<and>
   map reports_311 (gap_analysis (py_round 2) (Some example_frame) (Some example_posts)) = [3] \<and>
   map gap_score (gap_analysis (py_round 2) (Some example_frame) (Some example_posts))
     = [67 / 100] \<and>
   map exact_ratio (gap_analysis (py_round 2) (Some example_frame) (Some example_posts))
     = [2 / 3]"
  by code_simp

text \<open>
  C5, amended. With the neighbourhood column present, a neighbourhood has a gap record
  exactly when it has at least 2 weak-signal mentions and its official report count is
  less than half the mean official count over all neighbourhoods; there is at most one
  record for a neighbourhood. The gap score of a record is the rounding to two decimals
  of its weak-signal count divided by \<open>max official 1\<close>: a value with two decimals within
  0.005 of the ratio, whichever way the rounding of the program sends a tie. The records
  are in descending order of that score.
\<close>

theorem gap_analysis_records:
  assumes "rounds_to 2 rnd" and "has_neighborhood df"
  shows "(\<forall>n. (\<exists>g \<in> set (gap_analysis rnd (Some df) (Some posts)). g_neighborhood g = n) \<longleftrightarrow>
              (n \<in> set (known_neighborhoods df) \<and> 2 \<le> spec_mentions posts n \<and>
               of_nat (official_count df n) < spec_mean_official df / 2)) \<and>
         (\<forall>g \<in> set (gap_analysis rnd (Some df) (Some posts)).
              reddit_signal g = spec_mentions posts (g_neighborhood g) \<and>
              reports_311 g = official_count df (g_neighborhood g) \<and>
              gap_score g = rnd (exact_ratio g) \<and>
              gap_score g * 100 \<in> \<int> \<and>
              \<bar>gap_score g - exact_ratio g\<bar> \<le> 1 / 200) \<and>
         sorted_wrt gap_ge (gap_analysis rnd (Some df) (Some posts)) \<and>
         distinct (map g_neighborhood (gap_analysis rnd (Some df) (Some posts)))"
proof -
  let ?rc = "report_counts_of (Some df)"
  let ?gaps = "gap_analysis rnd (Some df) (Some posts)"
  have names: "set (map fst ?rc) = set (known_neighborhoods df)"
    by (rule set_names_known [OF assms(2)])
  have off: "get0 ?rc n = official_count df n" for n
    by (rule official_count_get0 [OF assms(2)])
  have avg: "avg_311_reports ?rc = spec_mean_official df" if "n \<in> set (known_neighborhoods df)" for n
  proof -
    from that have "known_neighborhoods df \<noteq> []" by auto
    then show ?thesis by (rule avg_311_reports_mean [OF assms(2)])
  qed
  have mem: "g \<in> set ?gaps \<longleftrightarrow>
     (\<exists>n. n \<in> set (known_neighborhoods df) \<and>
          g = gap_record rnd n (spec_mentions posts n) (official_count df n) \<and>
          2 \<le> spec_mentions posts n \<and>
          of_nat (official_count df n) < spec_mean_official df / 2)" for g
    unfolding gap_analysis_set names off using avg by auto
  have iff: "(\<exists>g \<in> set ?gaps. g_neighborhood g = n) \<longleftrightarrow>
              (n \<in> set (known_neighborhoods df) \<and> 2 \<le> spec_mentions posts n \<and>
               of_nat (official_count df n) < spec_mean_official df / 2)" for n
  proof
    assume "\<exists>g \<in> set ?gaps. g_neighborhood g = n"
    then obtain g where "g \<in> set ?gaps" and gn: "g_neighborhood g = n" by auto
    with mem [of g] obtain n' where "n' \<in> set (known_neighborhoods df)"
      and "g = gap_record rnd n' (spec_mentions posts n') (official_count df n')"
      and "2 \<le> spec_mentions posts n'"
      and "of_nat (official_count df n') < spec_mean_official df / 2" by blast
    with gn show "n \<in> set (known_neighborhoods df) \<and> 2 \<le> spec_mentions posts n \<and>
               of_nat (official_count df n) < spec_mean_official df / 2"
      by (simp add: gap_record_def)
  next
    assume "n \<in> set (known_neighborhoods df) \<and> 2 \<le> spec_mentions posts n \<and>
               of_nat (official_count df n) < spec_mean_official df / 2"
    with mem [of "gap_record rnd n (spec_mentions posts n) (official_count df n)"]
    have "gap_record rnd n (spec_mentions posts n) (official_count df n) \<in> set ?gaps" by blast
    moreover have "g_neighborhood (gap_record rnd n (spec_mentions posts n) (official_count df n)) = n"
      by (simp add: gap_record_def)
    ultimately show "\<exists>g \<in> set ?gaps. g_neighborhood g = n" by blast
  qed
  have fields: "reddit_signal g = spec_mentions posts (g_neighborhood g) \<and>
              reports_311 g = official_count df (g_neighborhood g) \<and>
              gap_score g = rnd (exact_ratio g) \<and>
              gap_score g * 100 \<in> \<int> \<and>
              \<bar>gap_score g - exact_ratio g\<bar> \<le> 1 / 200" if "g \<in> set ?gaps" for g
  proof -
    from that obtain n where g: "g = gap_record rnd n (spec_mentions posts n) (official_count df n)"
      unfolding mem by blast
    then have s: "gap_score g = rnd (exact_ratio g)"
      by (simp add: gap_record_def exact_ratio_def)
    from assms(1) have "rnd (exact_ratio g) * 100 \<in> \<int>"
      and "\<bar>rnd (exact_ratio g) - exact_ratio g\<bar> \<le> 1 / 200"
      by (simp_all add: rounds_to_def)
    with s g show ?thesis
      by (simp add: gap_record_def)
  qed
  from iff fields sorted_gap_analysis [of rnd "Some df" "Some posts"]
    distinct_gap_analysis [of rnd "Some df" "Some posts"]
  show ?thesis by blast
qed

lemma example_frame_known: "has_neighborhood example_frame"
  by (simp add: example_frame_def)

lemma example_frame_gaps:
  "map g_neighborhood (gap_analysis rnd (Some example_frame) (Some example_posts)) = [''Canton''] \<and>
   map exact_ratio (gap_analysis rnd (Some example_frame) (Some example_posts)) = [2 / 3]"
  by code_simp

theorem gap_analysis_records_witness:
  "\<exists>g. gap_analysis (py_round 2) (Some example_frame) (Some example_posts) = [g] \<and>
       g_neighborhood g = ''Canton'' \<and>
       reddit_signal g = spec_mentions example_posts ''Canton'' \<and>
       reports_311 g = official_count example_frame ''Canton'' \<and>
       gap_score g = 67 / 100 \<and>
       exact_ratio g = 2 / 3 \<and>
       spec_mentions example_posts ''Canton'' = 2 \<and>
       official_count example_frame ''Canton'' = 3 \<and>
       spec_mean_official example_frame = 13 / 2"
proof -
  have r: "rounds_to 2 (py_round 2 :: rat \<Rightarrow> rat)" by (rule rounds_to_py_round)
  from example_frame_gaps [of "py_round 2"]
  obtain g where g: "gap_analysis (py_round 2) (Some example_frame) (Some example_posts) = [g]"
    and n: "g_neighborhood g = ''Canton''" and e: "exact_ratio g = 2 / 3"
    by auto
  from gap_analysis_records [OF r example_frame_known, of example_posts] g n
  have "reddit_signal g = spec_mentions example_posts ''Canton''"
    and "reports_311 g = official_count example_frame ''Canton''"
    and "gap_score g = py_round 2 (exact_ratio g)"
    by simp_all
  moreover have "py_round 2 (2 / 3 :: rat) = 67 / 100"
    by (rule rounds_to_two_thirds [OF r])
  moreover have "spec_mentions example_posts ''Canton'' = 2"
    and "official_count example_frame ''Canton'' = 3"
    and "spec_mean_official example_frame = 13 / 2"
    by code_simp+
  ultimately show ?thesis using g n e by simp
qed

text \<open>
  C10. The weak-signal count of a known neighbourhood is the number of pairs of a post
  and one of its hints that match the neighbourhood: a post adds one for each of its
  hints that matches, nothing is merged within a post, and a hint adds one to every
  neighbourhood it matches. The count in a gap record is that number.
\<close>

theorem weak_signal_count_per_match:
  "(distinct names \<and> n \<in> set names \<longrightarrow>
      get0 (reddit_neighborhood_signals names posts) n
        = sum_list (map (\<lambda>p. length (filter (hint_matches n) (hints_of p))) posts) \<and>
      get0 (reddit_neighborhood_signals names (posts @ [HintArray hs])) n
        = get0 (reddit_neighborhood_signals names posts) n + length (filter (hint_matches n) hs)) \<and>
   (\<forall>g \<in> set (gap_analysis rnd df_311 (Some posts)).
      reddit_signal g
        = sum_list (map (\<lambda>p. length (filter (hint_matches (g_neighborhood g)) (hints_of p))) posts))"
proof -
  have a: "get0 (reddit_neighborhood_signals names ps) n = spec_mentions ps n"
    if "distinct names" "n \<in> set names" for ps
    using that by (simp add: signals_get0 count_list_distinct)
  have b: "spec_mentions (posts @ [HintArray hs]) n
         = spec_mentions posts n + length (filter (hint_matches n) hs)"
    by (simp add: spec_mentions_def)
  have c: "reddit_signal g = spec_mentions posts (g_neighborhood g)"
    if "g \<in> set (gap_analysis rnd df_311 (Some posts))" for g
    using that unfolding gap_analysis_set by (auto simp: gap_record_def)
  from a b c show ?thesis
    by (auto simp: spec_mentions_def)
qed

theorem weak_signal_count_per_match_witness:
  "reddit_neighborhood_signals example_names [example_post]
     = [(''Canton'', 2), (''Canton Square'', 2)] \<and>
   get0 (reddit_neighborhood_signals example_names [example_post]) ''Canton''
     = length (filter (hint_matches ''Canton'') (hints_of example_post)) \<and>
   filter (\<lambda>n. hint_matches n ''canton'') example_names = [''Canton'', ''Canton Square'']"
proof -
  have d: "distinct example_names \<and> ''Canton'' \<in> set example_names"
    by (simp add: example_names_def)
  have "reddit_neighborhood_signals example_names [example_post]
     = [(''Canton'', 2), (''Canton Square'', 2)]"
    by code_simp
  moreover have "filter (\<lambda>n. hint_matches n ''canton'') example_names = [''Canton'', ''Canton Square'']"
    by code_simp
  moreover from weak_signal_count_per_match [of example_names "''Canton''" "[example_post]"] d
  have "get0 (reddit_neighborhood_signals example_names [example_post]) ''Canton''
     = length (filter (hint_matches ''Canton'') (hints_of example_post))"
    by simp
  ultimately show ?thesis by simp
qed

subsection \<open>Optional inputs\<close>

text \<open>With the neighbourhood column, the summary has an entry for every non-empty
  name.\<close>

lemma dom_fold_summary_step:
  "dom (fold (summary_step np_rnd py_rnd now rs) names m) = dom m \<union> (set names - {[]})"
  by (induction names arbitrary: m) (auto simp: summary_step_def)

lemma dom_neighborhood_summary:
  "has_neighborhood df \<Longrightarrow>
   dom (neighborhood_summary np_rnd py_rnd now df) = set (present (map neighborhood (rows df))) - {[]}"
  by (simp add: neighborhood_summary_def dom_fold_summary_step set_first_seen)

text \<open>
  C9. Without the weak-signal dataset (absent or with no rows) the gap analysis returns
  the empty list, before anything is computed; without the neighbourhood column the
  neighbourhood summary is the empty dictionary.
\<close>

theorem optional_inputs_degrade:
  "gap_analysis rnd df_311 None = [] \<and>
   gap_analysis rnd df_311 (Some []) = [] \<and>
   (\<not> has_neighborhood df \<longrightarrow> neighborhood_summary np_rnd py_rnd now df = Map.empty)"
  by (simp add: gap_analysis_def neighborhood_summary_def)

theorem optional_inputs_degrade_witness:
  "gap_analysis (py_round 2) (Some example_frame) None = [] \<and>
   gap_analysis (py_round 2) (Some example_frame) (Some []) = [] \<and>
   neighborhood_summary (py_round 1) (py_round 1) (day 1000) (example_frame \<lparr> has_neighborhood := False \<rparr>) = Map.empty"
  using optional_inputs_degrade [of "py_round 2" "Some example_frame"
      "example_frame \<lparr> has_neighborhood := False \<rparr>" "py_round 1" "py_round 1" "day 1000"]
  by simp

end
